theory Spec2Isabelle
  imports Main
begin

section \<open>The blood bag chaincode (src/blood.js)\<close>

text \<open>
  The chaincode keeps one JSON document per blood bag in the ledger's world state,
  under the bag's id, and one marker entry per bag under a composite key built from
  the bag's type and id. Every operation receives the ledger stub and an array of
  strings. The model passes the world state explicitly and returns it with the
  outcome of the call: a thrown \<open>Error\<close> is a value of type \<open>error\<close>,
  and the state returned with it is the state at the moment of the throw.

  Strings and buffers are byte lists: a JavaScript string stands for its UTF-8
  encoding, so that \<open>Buffer.from(s)\<close> and \<open>buf.toString()\<close> are the identity.
  This is exact for well-formed text, which is all the chaincode writes.
\<close>

subsection \<open>JavaScript values read from and written to JSON\<close>

text \<open>
  \<open>JSON.parse\<close> yields null, booleans, strings, arrays and objects (and numbers,
  see \<open>Unmodelled\<close> below). An object is the list of its own properties in
  insertion order.
\<close>

datatype json =
    JNull
  | JBool bool
  | JStr string
  | JArr "json list"
  | JObj "(string \<times> json) list"

text \<open>Reading a property: \<open>None\<close> is JavaScript's \<open>undefined\<close>.\<close>

definition obj_get :: "string \<Rightarrow> (string \<times> json) list \<Rightarrow> json option" where
  "obj_get k ms = map_of ms k"

text \<open>
  Writing a property (\<open>o.k = v\<close>, and the property creation of \<open>JSON.parse\<close>):
  an existing property keeps its place and takes the new value, a new one goes last.
\<close>

fun obj_set :: "string \<Rightarrow> json \<Rightarrow> (string \<times> json) list \<Rightarrow> (string \<times> json) list" where
  "obj_set k v [] = [(k, v)]"
| "obj_set k v ((k', v') # ms) =
     (if k' = k then (k, v) # ms else (k', v') # obj_set k v ms)"

text \<open>
  \<open>SyntaxError\<close> is the exception \<open>JSON.parse\<close> throws: the whole text is checked
  against the grammar, numbers included. What the model leaves out is reported, never
  guessed: \<open>Unmodelled\<close> marks a text that \<open>JSON.parse\<close> accepts and whose value
  needs floating-point numbers (a number), UTF-16 (a \<open>\u\<close> escape above U+007F) or
  the engine's reordering of properties named by array indices.
\<close>

datatype parse_error = SyntaxError | Unmodelled

subsection \<open>Tokens\<close>

datatype token =
    TLBrace | TRBrace | TLBracket | TRBracket | TColon | TComma
  | TString string | TTrue | TFalse | TNull

definition hex_digit :: "nat \<Rightarrow> char" where
  "hex_digit n = ''0123456789abcdef'' ! n"

definition hex_val :: "char \<Rightarrow> nat option" where
  "hex_val c =
     (let n = (of_char c :: nat) in
      if 48 \<le> n \<and> n \<le> 57 then Some (n - 48)
      else if 97 \<le> n \<and> n \<le> 102 then Some (n - 87)
      else if 65 \<le> n \<and> n \<le> 70 then Some (n - 55)
      else None)"

text \<open>The escape of one character inside a JSON string, as \<open>JSON.stringify\<close> writes it.\<close>

definition quote_char :: "char \<Rightarrow> string" where
  "quote_char c =
     (if c = CHR 0x22 then [CHR 0x5C, CHR 0x22]
      else if c = CHR 0x5C then [CHR 0x5C, CHR 0x5C]
      else if c = CHR 0x08 then [CHR 0x5C, CHR ''b'']
      else if c = CHR 0x09 then [CHR 0x5C, CHR ''t'']
      else if c = CHR 0x0A then [CHR 0x5C, CHR ''n'']
      else if c = CHR 0x0C then [CHR 0x5C, CHR ''f'']
      else if c = CHR 0x0D then [CHR 0x5C, CHR ''r'']
      else if (of_char c :: nat) < 32 then
        [CHR 0x5C, CHR ''u'', CHR ''0'', CHR ''0'',
         hex_digit ((of_char c :: nat) div 16), hex_digit ((of_char c :: nat) mod 16)]
      else [c])"

definition quote :: "string \<Rightarrow> string" where
  "quote s = CHR 0x22 # concat (map quote_char s) @ [CHR 0x22]"

fun render :: "token \<Rightarrow> string" where
  "render TLBrace = ''{''"
| "render TRBrace = ''}''"
| "render TLBracket = ''[''"
| "render TRBracket = '']''"
| "render TColon = '':''"
| "render TComma = '',''"
| "render (TString s) = quote s"
| "render TTrue = ''true''"
| "render TFalse = ''false''"
| "render TNull = ''null''"

text \<open>The single-character escapes \<open>JSON.parse\<close> accepts after a backslash.\<close>

definition unescape :: "char \<Rightarrow> char option" where
  "unescape e =
     (if e = CHR 0x22 then Some (CHR 0x22)
      else if e = CHR 0x5C then Some (CHR 0x5C)
      else if e = CHR ''/'' then Some (CHR ''/'')
      else if e = CHR ''b'' then Some (CHR 0x08)
      else if e = CHR ''f'' then Some (CHR 0x0C)
      else if e = CHR ''n'' then Some (CHR 0x0A)
      else if e = CHR ''r'' then Some (CHR 0x0D)
      else if e = CHR ''t'' then Some (CHR 0x09)
      else None)"

text \<open>A \<open>\uXXXX\<close> escape: four hexadecimal digits; only U+0000 to U+007F are modelled.\<close>

definition unicode_escape :: "char \<Rightarrow> char \<Rightarrow> char \<Rightarrow> char \<Rightarrow> parse_error + char" where
  "unicode_escape a b c d =
     (case (hex_val a, hex_val b, hex_val c, hex_val d) of
        (Some x, Some y, Some z, Some w) \<Rightarrow>
          (let n = ((x * 16 + y) * 16 + z) * 16 + w in
           if n < 128 then Inr (char_of n) else Inl Unmodelled)
      | _ \<Rightarrow> Inl SyntaxError)"

definition is_space :: "char \<Rightarrow> bool" where
  "is_space c \<longleftrightarrow> c = CHR '' '' \<or> c = CHR 0x09 \<or> c = CHR 0x0A \<or> c = CHR 0x0D"

definition is_digit :: "char \<Rightarrow> bool" where
  "is_digit c \<longleftrightarrow> 48 \<le> (of_char c :: nat) \<and> (of_char c :: nat) \<le> 57"

text \<open>
  What the lexer finds in the text: a token with its value, a number, or a string with
  an escape above U+007F. The last two are recognised in full, so that the grammar of
  the text can be checked, but they have no value in the model.
\<close>

datatype lexeme = Tok token | Number | Opaque

text \<open>
  The grammar of a number: an optional minus, then \<open>0\<close> or a digit from 1 to 9 and
  more digits, then optionally a point and digits, then optionally an exponent
  (\<open>e\<close> or \<open>E\<close>, an optional sign, digits). \<open>number_next\<close> is the state after one
  more character, \<open>None\<close> when the character does not continue the number;
  \<open>number_done\<close> says whether the characters read so far are a number.
\<close>

datatype nstate =
    AfterMinus | AfterZero | InInt | AfterPoint | InFraction | AfterE | AfterSign | InExponent

definition is_exponent_mark :: "char \<Rightarrow> bool" where
  "is_exponent_mark c \<longleftrightarrow> c = CHR ''e'' \<or> c = CHR ''E''"

fun number_next :: "nstate \<Rightarrow> char \<Rightarrow> nstate option" where
  "number_next AfterMinus c =
     (if c = CHR ''0'' then Some AfterZero else if is_digit c then Some InInt else None)"
| "number_next AfterZero c =
     (if c = CHR ''.'' then Some AfterPoint
      else if is_exponent_mark c then Some AfterE else None)"
| "number_next InInt c =
     (if is_digit c then Some InInt
      else if c = CHR ''.'' then Some AfterPoint
      else if is_exponent_mark c then Some AfterE else None)"
| "number_next AfterPoint c = (if is_digit c then Some InFraction else None)"
| "number_next InFraction c =
     (if is_digit c then Some InFraction
      else if is_exponent_mark c then Some AfterE else None)"
| "number_next AfterE c =
     (if c = CHR ''+'' \<or> c = CHR ''-'' then Some AfterSign
      else if is_digit c then Some InExponent else None)"
| "number_next AfterSign c = (if is_digit c then Some InExponent else None)"
| "number_next InExponent c = (if is_digit c then Some InExponent else None)"

fun number_done :: "nstate \<Rightarrow> bool" where
  "number_done AfterZero = True"
| "number_done InInt = True"
| "number_done InFraction = True"
| "number_done InExponent = True"
| "number_done AfterMinus = False"
| "number_done AfterPoint = False"
| "number_done AfterE = False"
| "number_done AfterSign = False"

definition tcons :: "lexeme \<Rightarrow> parse_error + lexeme list \<Rightarrow> parse_error + lexeme list" where
  "tcons t r = (case r of Inl e \<Rightarrow> Inl e | Inr ts \<Rightarrow> Inr (t # ts))"

text \<open>
  The lexer. \<open>lex\<close> reads between tokens; \<open>lex_string opaque acc\<close> reads inside a
  string whose characters so far are \<open>acc\<close>, latest first, and which has had an
  escape above U+007F when \<open>opaque\<close> holds; \<open>lex_number s\<close> reads inside a number.
  The only failure is \<open>SyntaxError\<close>.
\<close>

fun lex :: "string \<Rightarrow> parse_error + lexeme list"
  and lex_string :: "bool \<Rightarrow> string \<Rightarrow> string \<Rightarrow> parse_error + lexeme list"
  and lex_number :: "nstate \<Rightarrow> string \<Rightarrow> parse_error + lexeme list" where
  "lex [] = Inr []"
| "lex (c # cs) =
     (if is_space c then lex cs
      else if c = CHR ''{'' then tcons (Tok TLBrace) (lex cs)
      else if c = CHR ''}'' then tcons (Tok TRBrace) (lex cs)
      else if c = CHR ''['' then tcons (Tok TLBracket) (lex cs)
      else if c = CHR '']'' then tcons (Tok TRBracket) (lex cs)
      else if c = CHR '':'' then tcons (Tok TColon) (lex cs)
      else if c = CHR '','' then tcons (Tok TComma) (lex cs)
      else if c = CHR 0x22 then lex_string False [] cs
      else if c = CHR ''t'' then
        (case cs of
           r # u # e # cs' \<Rightarrow>
             if [r, u, e] = ''rue'' then tcons (Tok TTrue) (lex cs') else Inl SyntaxError
         | _ \<Rightarrow> Inl SyntaxError)
      else if c = CHR ''f'' then
        (case cs of
           a # l # s # e # cs' \<Rightarrow>
             if [a, l, s, e] = ''alse'' then tcons (Tok TFalse) (lex cs') else Inl SyntaxError
         | _ \<Rightarrow> Inl SyntaxError)
      else if c = CHR ''n'' then
        (case cs of
           u # l # l' # cs' \<Rightarrow>
             if [u, l, l'] = ''ull'' then tcons (Tok TNull) (lex cs') else Inl SyntaxError
         | _ \<Rightarrow> Inl SyntaxError)
      else if c = CHR ''-'' then lex_number AfterMinus cs
      else if c = CHR ''0'' then lex_number AfterZero cs
      else if is_digit c then lex_number InInt cs
      else Inl SyntaxError)"
| "lex_string opaque acc [] = Inl SyntaxError"
| "lex_string opaque acc (c # cs) =
     (if c = CHR 0x22 then
        tcons (if opaque then Opaque else Tok (TString (rev acc))) (lex cs)
      else if c = CHR 0x5C then
        (case cs of
           [] \<Rightarrow> Inl SyntaxError
         | e # cs' \<Rightarrow>
             if e = CHR ''u'' then
               (case cs' of
                  a # b # c' # d # cs'' \<Rightarrow>
                    (case unicode_escape a b c' d of
                       Inl SyntaxError \<Rightarrow> Inl SyntaxError
                     | Inl Unmodelled \<Rightarrow> lex_string True acc cs''
                     | Inr ch \<Rightarrow> lex_string opaque (ch # acc) cs'')
                | _ \<Rightarrow> Inl SyntaxError)
             else
               (case unescape e of
                  None \<Rightarrow> Inl SyntaxError
                | Some ch \<Rightarrow> lex_string opaque (ch # acc) cs'))
      else if (of_char c :: nat) < 32 then Inl SyntaxError
      else lex_string opaque (c # acc) cs)"
| "lex_number s [] = (if number_done s then Inr [Number] else Inl SyntaxError)"
| "lex_number s (c # cs) =
     (case number_next s c of
        Some s' \<Rightarrow> lex_number s' cs
      | None \<Rightarrow> if number_done s then tcons Number (lex (c # cs)) else Inl SyntaxError)"

subsection \<open>The parser\<close>

text \<open>
  A pushdown automaton over the tokens. A frame is a container that is still open:
  an array with the elements read so far, an object with the members read so far,
  or an object whose next member has its key read and awaits its value.
\<close>

datatype frame =
    AFrame "json list"
  | OFrame "(string \<times> json) list"
  | OKey "(string \<times> json) list" string

datatype pmode =
    WantValue | ValueOrClose | KeyOrClose | WantKey | WantColon | CommaOrClose
  | Finished json

type_synonym pstate = "pmode \<times> frame list"

text \<open>
  A property named by an array index (\<open>0\<close>, \<open>1\<close>, \<open>42\<close>) is kept before all
  others by the engine, whatever the insertion order.
\<close>

fun is_index_key :: "string \<Rightarrow> bool" where
  "is_index_key [] = False"
| "is_index_key (c # cs) =
     (if c = CHR ''0'' then cs = [] else is_digit c \<and> list_all is_digit cs)"

text \<open>A complete value goes to the innermost open container, or is the result.\<close>

fun deliver :: "json \<Rightarrow> frame list \<Rightarrow> parse_error + pstate" where
  "deliver v [] = Inr (Finished v, [])"
| "deliver v (AFrame es # fs) = Inr (CommaOrClose, AFrame (es @ [v]) # fs)"
| "deliver v (OKey ms k # fs) = Inr (CommaOrClose, OFrame (obj_set k v ms) # fs)"
| "deliver v (OFrame ms # fs) = Inl SyntaxError"

fun begin_value :: "token \<Rightarrow> frame list \<Rightarrow> parse_error + pstate" where
  "begin_value (TString s) fs = deliver (JStr s) fs"
| "begin_value TTrue fs = deliver (JBool True) fs"
| "begin_value TFalse fs = deliver (JBool False) fs"
| "begin_value TNull fs = deliver JNull fs"
| "begin_value TLBracket fs = Inr (ValueOrClose, AFrame [] # fs)"
| "begin_value TLBrace fs = Inr (KeyOrClose, OFrame [] # fs)"
| "begin_value TRBrace fs = Inl SyntaxError"
| "begin_value TRBracket fs = Inl SyntaxError"
| "begin_value TColon fs = Inl SyntaxError"
| "begin_value TComma fs = Inl SyntaxError"

fun begin_key :: "token \<Rightarrow> frame list \<Rightarrow> parse_error + pstate" where
  "begin_key (TString k) (OFrame ms # fs) = Inr (WantColon, OKey ms k # fs)"
| "begin_key t fs = Inl SyntaxError"

fun close_array :: "frame list \<Rightarrow> parse_error + pstate" where
  "close_array (AFrame es # fs) = deliver (JArr es) fs"
| "close_array fs = Inl SyntaxError"

fun close_object :: "frame list \<Rightarrow> parse_error + pstate" where
  "close_object (OFrame ms # fs) = deliver (JObj ms) fs"
| "close_object fs = Inl SyntaxError"

fun next_item :: "frame list \<Rightarrow> parse_error + pstate" where
  "next_item (AFrame es # fs) = Inr (WantValue, AFrame es # fs)"
| "next_item (OFrame ms # fs) = Inr (WantKey, OFrame ms # fs)"
| "next_item fs = Inl SyntaxError"

fun step :: "pstate \<Rightarrow> token \<Rightarrow> parse_error + pstate" where
  "step (WantValue, fs) t = begin_value t fs"
| "step (ValueOrClose, fs) t = (if t = TRBracket then close_array fs else begin_value t fs)"
| "step (KeyOrClose, fs) t = (if t = TRBrace then close_object fs else begin_key t fs)"
| "step (WantKey, fs) t = begin_key t fs"
| "step (WantColon, fs) t = (if t = TColon then Inr (WantValue, fs) else Inl SyntaxError)"
| "step (CommaOrClose, fs) t =
     (if t = TComma then next_item fs
      else if t = TRBracket then close_array fs
      else if t = TRBrace then close_object fs
      else Inl SyntaxError)"
| "step (Finished v, fs) t = Inl SyntaxError"

fun run :: "token list \<Rightarrow> pstate \<Rightarrow> parse_error + pstate" where
  "run [] st = Inr st"
| "run (t # ts) st = (case step st t of Inl e \<Rightarrow> Inl e | Inr st' \<Rightarrow> run ts st')"

fun finish :: "pstate \<Rightarrow> parse_error + json" where
  "finish (Finished v, fs) = Inr v"
| "finish st = Inl SyntaxError"

text \<open>
  The grammar does not depend on the value of a token, so a number is parsed as the
  token \<open>null\<close> would be and an opaque string as the empty string. The value built
  from such a stand-in is never returned.
\<close>

fun stand_in :: "lexeme \<Rightarrow> token" where
  "stand_in (Tok t) = t"
| "stand_in Number = TNull"
| "stand_in Opaque = TString []"

fun is_token :: "lexeme \<Rightarrow> bool" where
  "is_token (Tok t) = True"
| "is_token Number = False"
| "is_token Opaque = False"

text \<open>No object in the value has a property named by an array index.\<close>

fun index_free :: "json \<Rightarrow> bool"
  and index_free_elems :: "json list \<Rightarrow> bool"
  and index_free_members :: "(string \<times> json) list \<Rightarrow> bool" where
  "index_free JNull = True"
| "index_free (JBool b) = True"
| "index_free (JStr s) = True"
| "index_free (JArr es) = index_free_elems es"
| "index_free (JObj ms) = index_free_members ms"
| "index_free_elems [] = True"
| "index_free_elems (e # es) = (index_free e \<and> index_free_elems es)"
| "index_free_members [] = True"
| "index_free_members ((k, v) # ms) =
     (\<not> is_index_key k \<and> index_free v \<and> index_free_members ms)"

text \<open>
  \<open>JSON.parse\<close>: a text that is not of the grammar raises \<open>SyntaxError\<close>; a text of
  the grammar has its value returned when the model has it.
\<close>

definition JSON_parse :: "string \<Rightarrow> parse_error + json" where
  "JSON_parse text =
     (case lex text of
        Inl e \<Rightarrow> Inl e
      | Inr ls \<Rightarrow>
          (case run (map stand_in ls) (WantValue, []) of
             Inl e \<Rightarrow> Inl e
           | Inr st \<Rightarrow>
               (case finish st of
                  Inl e \<Rightarrow> Inl e
                | Inr v \<Rightarrow>
                    if list_all is_token ls \<and> index_free v then Inr v else Inl Unmodelled)))"

subsection \<open>The serialiser\<close>

text \<open>
  \<open>JSON.stringify\<close> with no indentation: the tokens of the value, written one after
  the other with nothing between them.
\<close>

fun tokens :: "json \<Rightarrow> token list"
  and tokens_elems :: "json list \<Rightarrow> token list"
  and tokens_members :: "(string \<times> json) list \<Rightarrow> token list" where
  "tokens JNull = [TNull]"
| "tokens (JBool b) = [if b then TTrue else TFalse]"
| "tokens (JStr s) = [TString s]"
| "tokens (JArr es) = TLBracket # tokens_elems es @ [TRBracket]"
| "tokens (JObj ms) = TLBrace # tokens_members ms @ [TRBrace]"
| "tokens_elems [] = []"
| "tokens_elems (e # es) =
     tokens e @ (if es = [] then [] else TComma # tokens_elems es)"
| "tokens_members [] = []"
| "tokens_members ((k, v) # ms) =
     TString k # TColon # tokens v @ (if ms = [] then [] else TComma # tokens_members ms)"

definition JSON_stringify :: "json \<Rightarrow> string" where
  "JSON_stringify v = concat (map render (tokens v))"

subsection \<open>The ledger stub\<close>

text \<open>
  Modelled from the spec: the ledger stub (\<open>getState\<close>, \<open>putState\<close>,
  \<open>deleteState\<close>, \<open>createCompositeKey\<close>) belongs to the ledger library and
  is not in the repository. The world state maps keys to values; \<open>getState\<close>
  answers with a buffer, which is empty when nothing is stored under the key;
  \<open>putState\<close> and \<open>deleteState\<close> act on the one key they are given.
\<close>

type_synonym ledger = "string \<rightharpoonup> string"

definition getState :: "ledger \<Rightarrow> string \<Rightarrow> string" where
  "getState st key = (case st key of None \<Rightarrow> [] | Some v \<Rightarrow> v)"

definition putState :: "ledger \<Rightarrow> string \<Rightarrow> string \<Rightarrow> ledger" where
  "putState st key v = st(key \<mapsto> v)"

definition deleteState :: "ledger \<Rightarrow> string \<Rightarrow> ledger" where
  "deleteState st key = st(key := None)"

datatype error =
    InvalidArgument | AlreadyExists | NotFound | DecodeError | IndexError
  | TypeError | OutsideModel

text \<open>
  Modelled from the spec: \<open>createCompositeKey\<close> of the stub combines the object
  type and the attributes, in order, with a reserved separator, which it does not
  reject inside them. The layout is the ledger library's: the object type and every
  attribute must be a non-empty string; the key is U+0000, the object type, U+0000,
  and each attribute followed by U+0000. An attribute is a JavaScript value,
  \<open>None\<close> for \<open>undefined\<close>.
\<close>

fun attribute_text :: "json option \<Rightarrow> string option" where
  "attribute_text (Some (JStr s)) = (if s = [] then None else Some s)"
| "attribute_text a = None"

fun join_attributes :: "json option list \<Rightarrow> string option" where
  "join_attributes [] = Some []"
| "join_attributes (a # as) =
     (case attribute_text a of
        None \<Rightarrow> None
      | Some s \<Rightarrow> (case join_attributes as of None \<Rightarrow> None | Some r \<Rightarrow> Some (s @ CHR 0x00 # r)))"

definition createCompositeKey :: "string \<Rightarrow> json option list \<Rightarrow> error + string" where
  "createCompositeKey objectType attributes =
     (if objectType = [] then Inl IndexError
      else case join_attributes attributes of
             None \<Rightarrow> Inl IndexError
           | Some r \<Rightarrow> Inr (CHR 0x00 # objectType @ CHR 0x00 # r))"

subsection \<open>createBloodBag\<close>

definition createBloodBag :: "string list \<Rightarrow> ledger \<Rightarrow> (error + unit) \<times> ledger" where
  "createBloodBag args st =
     (if length args \<noteq> 6 then (Inl InvalidArgument, st)
      else if args ! 0 = [] then (Inl InvalidArgument, st)
      else if args ! 1 = [] then (Inl InvalidArgument, st)
      else if args ! 2 = [] then (Inl InvalidArgument, st)
      else if args ! 3 = [] then (Inl InvalidArgument, st)
      else if args ! 4 = [] then (Inl InvalidArgument, st)
      else if args ! 5 = [] then (Inl InvalidArgument, st)
      else
        let bloodBagID = args ! 0;
            bloodBagOriginID = args ! 1;
            bloodBagLocation = args ! 2;
            bloodBagStatus = ''UNASIGNED'';
            bloodBagReceiver = ''UNASIGNED'';
            bloodBagDestination = ''UNASIGNED'';
            bloodType = args ! 3;
            bloodRH = args ! 4;
            bloodBagSize = args ! 5;
            bloodBagState = getState st bloodBagID
        in
          if bloodBagState \<noteq> [] then (Inl AlreadyExists, st)
          else
            let bloodBag =
                  [(''docType'', JStr ''bloodbag''),
                   (''id'', JStr bloodBagID),
                   (''originId'', JStr bloodBagOriginID),
                   (''location'', JStr bloodBagLocation),
                   (''status'', JStr bloodBagStatus),
                   (''recipient'', JStr bloodBagReceiver),
                   (''destination'', JStr bloodBagDestination),
                   (''type'', JStr bloodType),
                   (''rh'', JStr bloodRH),
                   (''size'', JStr bloodBagSize)];
                st1 = putState st bloodBagID (JSON_stringify (JObj bloodBag))
            in
              (case createCompositeKey ''type~id''
                      [obj_get ''type'' bloodBag, obj_get ''id'' bloodBag] of
                 Inl e \<Rightarrow> (Inl e, st1)
               | Inr typeIdIndexKey \<Rightarrow> (Inr (), putState st1 typeIdIndexKey [CHR 0x00])))"

subsection \<open>readBloodBag\<close>

definition readBloodBag :: "string list \<Rightarrow> ledger \<Rightarrow> error + string" where
  "readBloodBag args st =
     (if length args \<noteq> 1 then Inl InvalidArgument
      else
        let ID = args ! 0 in
          if ID = [] then Inl InvalidArgument
          else
            let bloodBagAsBytes = getState st ID in
              if bloodBagAsBytes = [] then Inl NotFound
              else Inr bloodBagAsBytes)"

subsection \<open>deleteBloodBag\<close>

text \<open>
  \<open>!bagAsBytes\<close> negates a \<open>Buffer\<close>. A buffer is an object, and every object is
  truthy in JavaScript, the empty buffer too.
\<close>

definition buffer_is_falsy :: "string \<Rightarrow> bool" where
  "buffer_is_falsy b = False"

text \<open>
  Reading a property of a parsed value: of an object, its own property; of \<open>null\<close>,
  a \<open>TypeError\<close>; of anything else \<open>undefined\<close> (no prototype has a property
  named \<open>type\<close>, \<open>id\<close> or \<open>destination\<close>).
\<close>

fun get_property :: "json \<Rightarrow> string \<Rightarrow> error + json option" where
  "get_property JNull k = Inl TypeError"
| "get_property (JObj ms) k = Inr (obj_get k ms)"
| "get_property v k = Inr None"

definition deleteBloodBag :: "string list \<Rightarrow> ledger \<Rightarrow> (error + unit) \<times> ledger" where
  "deleteBloodBag args st =
     (if length args \<noteq> 1 then (Inl InvalidArgument, st)
      else
        let ID = args ! 0 in
          if ID = [] then (Inl InvalidArgument, st)
          else
            let bagAsBytes = getState st ID in
              if buffer_is_falsy bagAsBytes then (Inl NotFound, st)
              else
                (case JSON_parse bagAsBytes of
                   Inl SyntaxError \<Rightarrow> (Inl DecodeError, st)
                 | Inl Unmodelled \<Rightarrow> (Inl OutsideModel, st)
                 | Inr bagJSON \<Rightarrow>
                     let st1 = deleteState st ID in
                       (case get_property bagJSON ''type'' of
                          Inl e \<Rightarrow> (Inl e, st1)
                        | Inr bagType \<Rightarrow>
                            (case get_property bagJSON ''id'' of
                               Inl e \<Rightarrow> (Inl e, st1)
                             | Inr bagId \<Rightarrow>
                                 (case createCompositeKey ''type~id'' [bagType, bagId] of
                                    Inl e \<Rightarrow> (Inl e, st1)
                                  | Inr typeIdIndexKey \<Rightarrow>
                                      if typeIdIndexKey = [] then (Inl IndexError, st1)
                                      else (Inr (), deleteState st1 typeIdIndexKey))))))"

subsection \<open>moveBagToLocation and assignBloodBagReceiver\<close>

text \<open>
  \<open>destination == location\<close>, where \<open>location\<close> is a string: two strings are
  compared as strings, \<open>undefined\<close> and \<open>null\<close> equal no string. Against a
  boolean, an array or an object JavaScript converts both sides first; that
  comparison is left out (\<open>None\<close>).
\<close>

fun loose_equals :: "json option \<Rightarrow> string \<Rightarrow> bool option" where
  "loose_equals None s = Some False"
| "loose_equals (Some JNull) s = Some False"
| "loose_equals (Some (JStr d)) s = Some (d = s)"
| "loose_equals (Some (JBool b)) s = None"
| "loose_equals (Some (JArr es)) s = None"
| "loose_equals (Some (JObj ms)) s = None"

text \<open>
  Assigning to a property of a parsed value, in strict mode: an object takes the
  property; an array takes it too, but \<open>JSON.stringify\<close> writes only the elements of
  an array, so nothing of it is seen again; \<open>null\<close>, a boolean and a string
  raise a \<open>TypeError\<close>.
\<close>

fun set_property :: "json \<Rightarrow> string \<Rightarrow> json \<Rightarrow> error + json" where
  "set_property (JObj ms) k v = Inr (JObj (obj_set k v ms))"
| "set_property (JArr es) k v = Inr (JArr es)"
| "set_property JNull k v = Inl TypeError"
| "set_property (JBool b) k v = Inl TypeError"
| "set_property (JStr s) k v = Inl TypeError"

definition then_set :: "error + json \<Rightarrow> string \<Rightarrow> json \<Rightarrow> error + json" where
  "then_set r k v = (case r of Inl e \<Rightarrow> Inl e | Inr b \<Rightarrow> set_property b k v)"

definition moveBagToLocation :: "string list \<Rightarrow> ledger \<Rightarrow> (error + unit) \<times> ledger" where
  "moveBagToLocation args st =
     (if length args < 2 then (Inl InvalidArgument, st)
      else
        let ID = args ! 0;
            location = args ! 1;
            bagAsBytes = getState st ID
        in
          if buffer_is_falsy bagAsBytes \<or> bagAsBytes = [] then (Inl NotFound, st)
          else
            (case JSON_parse bagAsBytes of
               Inl SyntaxError \<Rightarrow> (Inl DecodeError, st)
             | Inl Unmodelled \<Rightarrow> (Inl OutsideModel, st)
             | Inr bagToMove \<Rightarrow>
                 (case get_property bagToMove ''destination'' of
                    Inl e \<Rightarrow> (Inl e, st)
                  | Inr destination \<Rightarrow>
                      (case loose_equals destination location of
                         None \<Rightarrow> (Inl OutsideModel, st)
                       | Some same \<Rightarrow>
                           (case (if same
                                  then then_set (set_property bagToMove ''location'' (JStr location))
                                         ''status'' (JStr ''RECEIVED'')
                                  else then_set (set_property bagToMove ''location'' (JStr location))
                                         ''status'' (JStr ''INTRANSIT'')) of
                              Inl e \<Rightarrow> (Inl e, st)
                            | Inr moved \<Rightarrow>
                                (Inr (), putState st ID (JSON_stringify moved)))))))"

definition assignBloodBagReceiver :: "string list \<Rightarrow> ledger \<Rightarrow> (error + unit) \<times> ledger" where
  "assignBloodBagReceiver args st =
     (if length args < 3 then (Inl InvalidArgument, st)
      else
        let ID = args ! 0;
            recipient = args ! 1;
            destination = args ! 2;
            bagAsBytes = getState st ID
        in
          if buffer_is_falsy bagAsBytes \<or> bagAsBytes = [] then (Inl NotFound, st)
          else
            (case JSON_parse bagAsBytes of
               Inl SyntaxError \<Rightarrow> (Inl DecodeError, st)
             | Inl Unmodelled \<Rightarrow> (Inl OutsideModel, st)
             | Inr bagToMove \<Rightarrow>
                 (case then_set
                         (then_set (set_property bagToMove ''recipient'' (JStr recipient))
                            ''destination'' (JStr destination))
                         ''status'' (JStr ''ASSIGNED'') of
                    Inl e \<Rightarrow> (Inl e, st)
                  | Inr assigned \<Rightarrow>
                      (Inr (), putState st ID (JSON_stringify assigned)))))"

subsection \<open>getAllResults and getHistoryForBloodBag\<close>

text \<open>
  One result of a ledger iterator, with the properties the loop reads (\<open>key\<close>,
  \<open>value\<close>, \<open>tx_id\<close>, \<open>timestamp\<close>, \<open>is_delete\<close>). The iterator is the
  list of the results it has still to deliver: \<open>next()\<close> takes the first, and
  reports \<open>done\<close> with the last one or, on an empty list, alone and with no value.

  The value of a result is a \<open>ByteBuffer\<close> of the ledger library, not a
  \<open>Buffer\<close>: \<open>km_value\<close> is its content, which \<open>toString('utf8')\<close> gives.
  Its \<open>toString()\<close> with no encoding is a description of the buffer (its class,
  offset, limit and capacity), which is never the empty string, whatever the content.
\<close>

record key_modification =
  km_key :: string
  km_value :: string
  km_tx_id :: string
  km_timestamp :: "int \<times> int"
  km_is_delete :: bool

definition byteBuffer_description_empty :: "string \<Rightarrow> bool" where
  "byteBuffer_description_empty content = False"

text \<open>
  A JavaScript value held by a property of \<open>jsonRes\<close>: a value of the model, or
  \<open>Beyond\<close> for a value \<open>JSON.parse\<close> returned and the model has no term for.
\<close>

datatype js_value = Val json | Beyond

text \<open>The object \<open>jsonRes\<close>; a property that was never assigned is \<open>None\<close>.\<close>

record jsonRes =
  TxId :: "string option"
  Timestamp :: "(int \<times> int) option"
  IsDelete :: "string option"
  Value :: "js_value option"
  Key :: "string option"
  Record :: "js_value option"

definition emptyRes :: jsonRes where
  "emptyRes = \<lparr> TxId = None, Timestamp = None, IsDelete = None, Value = None,
                 Key = None, Record = None \<rparr>"

definition bool_toString :: "bool \<Rightarrow> string" where
  "bool_toString b = (if b then ''true'' else ''false'')"

text \<open>
  The body of the loop for one result: \<open>JSON.parse\<close> of the content, and in the
  \<open>catch\<close> branch the content itself.
\<close>

definition makeRes :: "key_modification \<Rightarrow> bool \<Rightarrow> jsonRes" where
  "makeRes res isHistory =
     (if isHistory then
        (let jsonRes = emptyRes \<lparr> TxId := Some (km_tx_id res),
                                 Timestamp := Some (km_timestamp res),
                                 IsDelete := Some (bool_toString (km_is_delete res)) \<rparr>
         in case JSON_parse (km_value res) of
              Inr v \<Rightarrow> jsonRes \<lparr> Value := Some (Val v) \<rparr>
            | Inl Unmodelled \<Rightarrow> jsonRes \<lparr> Value := Some Beyond \<rparr>
            | Inl SyntaxError \<Rightarrow> jsonRes \<lparr> Value := Some (Val (JStr (km_value res))) \<rparr>)
      else
        (let jsonRes = emptyRes \<lparr> Key := Some (km_key res) \<rparr>
         in case JSON_parse (km_value res) of
              Inr v \<Rightarrow> jsonRes \<lparr> Record := Some (Val v) \<rparr>
            | Inl Unmodelled \<Rightarrow> jsonRes \<lparr> Record := Some Beyond \<rparr>
            | Inl SyntaxError \<Rightarrow> jsonRes \<lparr> Value := Some (Val (JStr (km_value res))) \<rparr>))"

fun getAllResults_loop ::
  "key_modification list \<Rightarrow> bool \<Rightarrow> jsonRes list \<Rightarrow> jsonRes list" where
  "getAllResults_loop [] isHistory allResults = allResults"
| "getAllResults_loop (res # iterator) isHistory allResults =
     (if \<not> byteBuffer_description_empty (km_value res) then
        (let jsonRes = makeRes res isHistory in
           if iterator = [] then allResults @ [jsonRes]
           else getAllResults_loop iterator isHistory (allResults @ [jsonRes]))
      else if iterator = [] then allResults
      else getAllResults_loop iterator isHistory allResults)"

definition getAllResults :: "key_modification list \<Rightarrow> bool \<Rightarrow> jsonRes list" where
  "getAllResults iterator isHistory = getAllResults_loop iterator isHistory []"

text \<open>
  \<open>getHistoryForBloodBag\<close> hands the history iterator of the key to \<open>getAllResults\<close>;
  the serialisation of its result for the caller is not modelled.
\<close>

definition getHistoryForBloodBag ::
  "string list \<Rightarrow> (string \<Rightarrow> key_modification list) \<Rightarrow> error + jsonRes list" where
  "getHistoryForBloodBag args getHistoryForKey =
     (if length args < 1 then Inl InvalidArgument
      else
        let ID = args ! 0;
            resultsIterator = getHistoryForKey ID
        in Inr (getAllResults resultsIterator True))"

text \<open>
  For stating what the history loop returns: the value an entry carries (the decoded
  value, or the text itself where it does not decode) and the entry built from a
  history result.
\<close>

definition value_or_raw :: "string \<Rightarrow> js_value" where
  "value_or_raw bytes =
     (case JSON_parse bytes of
        Inr v \<Rightarrow> Val v
      | Inl Unmodelled \<Rightarrow> Beyond
      | Inl SyntaxError \<Rightarrow> Val (JStr bytes))"

definition history_entry :: "key_modification \<Rightarrow> jsonRes" where
  "history_entry res =
     \<lparr> TxId = Some (km_tx_id res), Timestamp = Some (km_timestamp res),
       IsDelete = Some (bool_toString (km_is_delete res)),
       Value = Some (value_or_raw (km_value res)), Key = None, Record = None \<rparr>"

subsection \<open>The values the serialiser and the parser agree on\<close>

text \<open>
  A value is well formed when the names of each object in it are distinct and none is
  an array index. Every value \<open>JSON.parse\<close> returns is well formed, and a well-formed
  value is read back from its serialisation unchanged. The parser keeps the names of
  every object distinct (\<open>distinct_names\<close>), in the value it builds and in the
  containers still open.
\<close>

fun wf_json :: "json \<Rightarrow> bool"
  and wf_elems :: "json list \<Rightarrow> bool"
  and wf_members :: "(string \<times> json) list \<Rightarrow> bool" where
  "wf_json JNull = True"
| "wf_json (JBool b) = True"
| "wf_json (JStr s) = True"
| "wf_json (JArr es) = wf_elems es"
| "wf_json (JObj ms) = wf_members ms"
| "wf_elems [] = True"
| "wf_elems (e # es) = (wf_json e \<and> wf_elems es)"
| "wf_members [] = True"
| "wf_members ((k, v) # ms) =
     (\<not> is_index_key k \<and> k \<notin> fst ` set ms \<and> wf_json v \<and> wf_members ms)"

fun distinct_names :: "json \<Rightarrow> bool"
  and distinct_names_elems :: "json list \<Rightarrow> bool"
  and distinct_names_members :: "(string \<times> json) list \<Rightarrow> bool" where
  "distinct_names JNull = True"
| "distinct_names (JBool b) = True"
| "distinct_names (JStr s) = True"
| "distinct_names (JArr es) = distinct_names_elems es"
| "distinct_names (JObj ms) = distinct_names_members ms"
| "distinct_names_elems [] = True"
| "distinct_names_elems (e # es) = (distinct_names e \<and> distinct_names_elems es)"
| "distinct_names_members [] = True"
| "distinct_names_members ((k, v) # ms) =
     (k \<notin> fst ` set ms \<and> distinct_names v \<and> distinct_names_members ms)"

fun wf_frame :: "frame \<Rightarrow> bool" where
  "wf_frame (AFrame es) = distinct_names_elems es"
| "wf_frame (OFrame ms) = distinct_names_members ms"
| "wf_frame (OKey ms k) = distinct_names_members ms"

fun wf_pstate :: "pstate \<Rightarrow> bool" where
  "wf_pstate (Finished v, fs) = (distinct_names v \<and> list_all wf_frame fs)"
| "wf_pstate (m, fs) = list_all wf_frame fs"

subsection \<open>A bag for the examples\<close>

text \<open>
  The record of bag \<open>B1\<close>, with the properties in the order \<open>createBloodBag\<close>
  assigns them.
\<close>

definition sample_bag :: "string \<Rightarrow> string \<Rightarrow> string \<Rightarrow> string \<Rightarrow> (string \<times> json) list" where
  "sample_bag location status recipient destination =
     [(''docType'', JStr ''bloodbag''),
      (''id'', JStr ''B1''),
      (''originId'', JStr ''O1''),
      (''location'', JStr location),
      (''status'', JStr status),
      (''recipient'', JStr recipient),
      (''destination'', JStr destination),
      (''type'', JStr ''O''),
      (''rh'', JStr ''+''),
      (''size'', JStr ''450'')]"

subsection \<open>The record and the index key of a new bag\<close>

text \<open>
  The record \<open>createBloodBag\<close> builds from its six arguments, and the key
  \<open>createCompositeKey\<close> builds from the index name \<open>type~id\<close>, a type and an id.
\<close>

definition created_bag ::
  "string \<Rightarrow> string \<Rightarrow> string \<Rightarrow> string \<Rightarrow> string \<Rightarrow> string \<Rightarrow> (string \<times> json) list" where
  "created_bag bagId originId location bloodType rh bagSize =
     [(''docType'', JStr ''bloodbag''),
      (''id'', JStr bagId),
      (''originId'', JStr originId),
      (''location'', JStr location),
      (''status'', JStr ''UNASIGNED''),
      (''recipient'', JStr ''UNASIGNED''),
      (''destination'', JStr ''UNASIGNED''),
      (''type'', JStr bloodType),
      (''rh'', JStr rh),
      (''size'', JStr bagSize)]"

definition type_id_key :: "string \<Rightarrow> string \<Rightarrow> string" where
  "type_id_key bloodType bagId =
     CHR 0x00 # ''type~id'' @ CHR 0x00 # bloodType @ CHR 0x00 # bagId @ [CHR 0x00]"

subsection \<open>The ledgers the chaincode can produce\<close>

text \<open>
  Starting from the empty ledger, by any sequence of calls of the four operations that
  write, with any arguments; a call that fails leaves the ledger it had reached.
\<close>

inductive reachable :: "ledger \<Rightarrow> bool" where
  empty: "reachable Map.empty"
| create: "reachable st \<Longrightarrow> reachable (snd (createBloodBag args st))"
| delete: "reachable st \<Longrightarrow> reachable (snd (deleteBloodBag args st))"
| move: "reachable st \<Longrightarrow> reachable (snd (moveBagToLocation args st))"
| assign: "reachable st \<Longrightarrow> reachable (snd (assignBloodBagReceiver args st))"

text \<open>
  What is stored in such a ledger: the marker of an index entry, or a value that
  decodes to a record whose \<open>docType\<close> is \<open>bloodbag\<close> and whose destination is a
  string.
\<close>

definition bag_value :: "string \<Rightarrow> bool" where
  "bag_value v =
     (case JSON_parse v of
        Inr (JObj ms) \<Rightarrow>
          obj_get ''docType'' ms = Some (JStr ''bloodbag'') \<and>
          (case obj_get ''destination'' ms of Some (JStr d) \<Rightarrow> True | _ \<Rightarrow> False)
      | _ \<Rightarrow> False)"

definition stored_values_ok :: "ledger \<Rightarrow> bool" where
  "stored_values_ok st \<longleftrightarrow> (\<forall>k v. st k = Some v \<longrightarrow> v = [CHR 0x00] \<or> bag_value v)"

subsection \<open>Record and index entry in lock-step\<close>

text \<open>
  The composite key separates its parts by U+0000. A string is separator-free when it
  is not empty and has no U+0000 in it; a call of \<open>createBloodBag\<close> has no separator
  when neither its id nor its type has one. The ledgers reachable by such calls of
  \<open>createBloodBag\<close>, and any calls of the other operations:
\<close>

definition separator_free :: "string \<Rightarrow> bool" where
  "separator_free s \<longleftrightarrow> s \<noteq> [] \<and> CHR 0x00 \<notin> set s"

definition no_separator :: "string list \<Rightarrow> bool" where
  "no_separator args =
     (if length args = 6 then CHR 0x00 \<notin> set (args ! 0) \<and> CHR 0x00 \<notin> set (args ! 3) else True)"

inductive reachable_separated :: "ledger \<Rightarrow> bool" where
  empty: "reachable_separated Map.empty"
| create: "reachable_separated st \<Longrightarrow> no_separator args \<Longrightarrow>
           reachable_separated (snd (createBloodBag args st))"
| delete: "reachable_separated st \<Longrightarrow> reachable_separated (snd (deleteBloodBag args st))"
| move: "reachable_separated st \<Longrightarrow> reachable_separated (snd (moveBagToLocation args st))"
| assign: "reachable_separated st \<Longrightarrow> reachable_separated (snd (assignBloodBagReceiver args st))"

text \<open>
  The id and type of the record a stored value decodes to; the two kinds of entry of
  the ledger, each with its counterpart; and the invariant: every entry is of one of
  the two kinds.
\<close>

definition bag_fields :: "string \<Rightarrow> (string \<times> string) option" where
  "bag_fields v =
     (case JSON_parse v of
        Inr (JObj ms) \<Rightarrow>
          (case (obj_get ''id'' ms, obj_get ''type'' ms, obj_get ''destination'' ms) of
             (Some (JStr i), Some (JStr t), Some (JStr d)) \<Rightarrow> Some (i, t)
           | _ \<Rightarrow> None)
      | _ \<Rightarrow> None)"

definition index_entry :: "ledger \<Rightarrow> string \<Rightarrow> string \<Rightarrow> bool" where
  "index_entry st k v \<longleftrightarrow>
     v = [CHR 0x00] \<and>
     (\<exists>t i. k = type_id_key t i \<and> separator_free t \<and> separator_free i \<and>
            bag_fields (getState st i) = Some (i, t))"

definition record_entry :: "ledger \<Rightarrow> string \<Rightarrow> string \<Rightarrow> bool" where
  "record_entry st k v \<longleftrightarrow>
     separator_free k \<and>
     (\<exists>t. separator_free t \<and> bag_fields v = Some (k, t) \<and> st (type_id_key t k) = Some [CHR 0x00])"

definition lockstep :: "ledger \<Rightarrow> bool" where
  "lockstep st \<longleftrightarrow> (\<forall>k v. st k = Some v \<longrightarrow> index_entry st k v \<or> record_entry st k v)"

section \<open>Properties\<close>

subsection \<open>Texts that JSON.parse rejects\<close>

lemma JSON_parse_empty: "JSON_parse [] = Inl SyntaxError"
  by (simp add: JSON_parse_def)

lemma JSON_parse_garbage: "JSON_parse ''garbage'' = Inl SyntaxError"
  by (simp add: JSON_parse_def is_space_def is_digit_def)

subsection \<open>Reading a bag\<close>

text \<open>
  C3, as the code has it: for a non-empty id, \<open>readBloodBag\<close> fails with
  \<open>NotFound\<close> when the value stored under the id is absent or empty, and otherwise
  returns the stored bytes as they are. It never decodes them.
\<close>

theorem readBloodBag_stored_bytes:
  "ID \<noteq> [] \<Longrightarrow>
   readBloodBag [ID] st =
     (if getState st ID = [] then Inl NotFound else Inr (getState st ID))"
  by (simp add: readBloodBag_def Let_def)

theorem readBloodBag_stored_bytes_witness:
  "''B1'' \<noteq> [] \<and> getState [''B1'' \<mapsto> ''garbage''] ''B1'' = ''garbage'' \<and>
   readBloodBag [''B1''] [''B1'' \<mapsto> ''garbage''] = Inr ''garbage'' \<and>
   readBloodBag [''B1''] Map.empty = Inl NotFound"
  using readBloodBag_stored_bytes [of "''B1''" "[''B1'' \<mapsto> ''garbage'']"]
        readBloodBag_stored_bytes [of "''B1''" Map.empty]
  by (simp add: getState_def)

text \<open>
  C3 as stated fails: the bytes \<open>garbage\<close> stored under \<open>B1\<close> do not parse, and
  \<open>readBloodBag\<close> does not fail with \<open>DecodeError\<close> on them.
\<close>

theorem readBloodBag_no_DecodeError:
  "JSON_parse (getState [''B1'' \<mapsto> ''garbage''] ''B1'') = Inl SyntaxError \<and>
   readBloodBag [''B1''] [''B1'' \<mapsto> ''garbage''] \<noteq> Inl DecodeError"
  by (simp add: readBloodBag_def getState_def JSON_parse_garbage)

subsection \<open>Deleting a bag\<close>

lemma deleteBloodBag_empty_value:
  "ID \<noteq> [] \<Longrightarrow> getState st ID = [] \<Longrightarrow> deleteBloodBag [ID] st = (Inl DecodeError, st)"
  by (simp add: deleteBloodBag_def buffer_is_falsy_def JSON_parse_empty)

lemma deleteBloodBag_undecodable:
  "ID \<noteq> [] \<Longrightarrow> JSON_parse (getState st ID) = Inl SyntaxError \<Longrightarrow>
   deleteBloodBag [ID] st = (Inl DecodeError, st)"
  by (simp add: deleteBloodBag_def buffer_is_falsy_def)

text \<open>
  C4 at the id \<open>B1\<close> of an empty ledger: nothing is stored there, and
  \<open>deleteBloodBag\<close> fails with the decoding error, not with \<open>NotFound\<close>. The ledger
  is left as it was.
\<close>

theorem deleteBloodBag_absent_DecodeError:
  "deleteBloodBag [''B1''] Map.empty = (Inl DecodeError, Map.empty)"
  by (simp add: deleteBloodBag_def getState_def buffer_is_falsy_def JSON_parse_empty)

subsection \<open>Creating a bag twice\<close>

text \<open>
  C8: when a non-empty value is stored under the id, whether it decodes or not,
  \<open>createBloodBag\<close> with six non-empty arguments fails with \<open>AlreadyExists\<close> and
  the ledger is unchanged: neither the record nor an index entry is written.
\<close>

theorem createBloodBag_AlreadyExists:
  "length args = 6 \<Longrightarrow> list_all (\<lambda>a. a \<noteq> []) args \<Longrightarrow> getState st (args ! 0) \<noteq> [] \<Longrightarrow>
   createBloodBag args st = (Inl AlreadyExists, st)"
  by (simp add: createBloodBag_def Let_def list_all_length)

theorem createBloodBag_AlreadyExists_witness:
  "length [''B1'', ''O1'', ''Lab'', ''O'', ''+'', ''450''] = 6 \<and>
   list_all (\<lambda>a. a \<noteq> []) [''B1'', ''O1'', ''Lab'', ''O'', ''+'', ''450''] \<and>
   getState [''B1'' \<mapsto> ''garbage''] ([''B1'', ''O1'', ''Lab'', ''O'', ''+'', ''450''] ! 0) \<noteq> [] \<and>
   createBloodBag [''B1'', ''O1'', ''Lab'', ''O'', ''+'', ''450''] [''B1'' \<mapsto> ''garbage'']
     = (Inl AlreadyExists, [''B1'' \<mapsto> ''garbage''])"
  using createBloodBag_AlreadyExists
          [of "[''B1'', ''O1'', ''Lab'', ''O'', ''+'', ''450'']" "[''B1'' \<mapsto> ''garbage'']"]
  by (simp add: getState_def)

subsection \<open>Replaying a history\<close>

lemma JSON_parse_empty_object: "JSON_parse ''{}'' = Inr (JObj [])"
  by (simp add: JSON_parse_def is_space_def tcons_def)

lemma JSON_parse_corrupted: "JSON_parse ''0garbage'' = Inl SyntaxError"
  by (simp add: JSON_parse_def is_space_def is_digit_def is_exponent_mark_def tcons_def)

lemma makeRes_history: "makeRes res True = history_entry res"
  by (simp add: makeRes_def history_entry_def value_or_raw_def emptyRes_def
        split: sum.splits parse_error.splits)

text \<open>
  The loop emits one entry for each result of the iterator, in the order of the
  iterator: the guard on the description of the value never fails.
\<close>

lemma getAllResults_loop_history:
  "getAllResults_loop rs True acc = acc @ map history_entry rs"
  by (induction rs arbitrary: acc)
     (simp_all add: makeRes_history byteBuffer_description_empty_def Let_def)

lemma getHistoryForBloodBag_replays:
  "getHistoryForBloodBag (ID # extra) getHistoryForKey
     = Inr (getAllResults (getHistoryForKey ID) True)"
  by (simp add: getHistoryForBloodBag_def)

text \<open>
  C5: for a history of three writes and one deletion, whatever their values,
  \<open>getAllResults\<close> with \<open>isHistory\<close> true returns four entries in the order
  delivered, the last one flagged as a deletion; and when the value of the second
  does not decode, its entry carries the raw text and the replay goes on.
\<close>

theorem getAllResults_three_writes_one_delete:
  assumes "km_is_delete d"
  shows "getAllResults [w1, w2, w3, d] True =
           [history_entry w1, history_entry w2, history_entry w3, history_entry d]
         \<and> IsDelete (history_entry d) = Some ''true''
         \<and> (JSON_parse (km_value w2) = Inl SyntaxError \<longrightarrow>
              Value (history_entry w2) = Some (Val (JStr (km_value w2))))"
proof -
  have "getAllResults [w1, w2, w3, d] True =
          [history_entry w1, history_entry w2, history_entry w3, history_entry d]"
    by (simp add: getAllResults_def getAllResults_loop_history del: getAllResults_loop.simps)
  moreover have "IsDelete (history_entry d) = Some ''true''"
    using assms by (simp add: history_entry_def bool_toString_def)
  moreover have "JSON_parse (km_value w2) = Inl SyntaxError \<longrightarrow>
                 Value (history_entry w2) = Some (Val (JStr (km_value w2)))"
    by (simp add: history_entry_def value_or_raw_def)
  ultimately show ?thesis by blast
qed

theorem getAllResults_three_writes_one_delete_witness:
  "getAllResults
     [\<lparr> km_key = ''B1'', km_value = ''{}'', km_tx_id = ''t1'', km_timestamp = (1, 0), km_is_delete = False \<rparr>,
      \<lparr> km_key = ''B1'', km_value = ''0garbage'', km_tx_id = ''t2'', km_timestamp = (2, 0), km_is_delete = False \<rparr>,
      \<lparr> km_key = ''B1'', km_value = ''{}'', km_tx_id = ''t3'', km_timestamp = (3, 0), km_is_delete = False \<rparr>,
      \<lparr> km_key = ''B1'', km_value = [], km_tx_id = ''t4'', km_timestamp = (4, 0), km_is_delete = True \<rparr>]
     True =
   [\<lparr> TxId = Some ''t1'', Timestamp = Some (1, 0), IsDelete = Some ''false'',
      Value = Some (Val (JObj [])), Key = None, Record = None \<rparr>,
    \<lparr> TxId = Some ''t2'', Timestamp = Some (2, 0), IsDelete = Some ''false'',
      Value = Some (Val (JStr ''0garbage'')), Key = None, Record = None \<rparr>,
    \<lparr> TxId = Some ''t3'', Timestamp = Some (3, 0), IsDelete = Some ''false'',
      Value = Some (Val (JObj [])), Key = None, Record = None \<rparr>,
    \<lparr> TxId = Some ''t4'', Timestamp = Some (4, 0), IsDelete = Some ''true'',
      Value = Some (Val (JStr [])), Key = None, Record = None \<rparr>]"
  using getAllResults_three_writes_one_delete
    [of "\<lparr> km_key = ''B1'', km_value = [], km_tx_id = ''t4'', km_timestamp = (4, 0), km_is_delete = True \<rparr>"
        "\<lparr> km_key = ''B1'', km_value = ''{}'', km_tx_id = ''t1'', km_timestamp = (1, 0), km_is_delete = False \<rparr>"
        "\<lparr> km_key = ''B1'', km_value = ''0garbage'', km_tx_id = ''t2'', km_timestamp = (2, 0), km_is_delete = False \<rparr>"
        "\<lparr> km_key = ''B1'', km_value = ''{}'', km_tx_id = ''t3'', km_timestamp = (3, 0), km_is_delete = False \<rparr>"]
  by (simp add: JSON_parse_empty_object JSON_parse_corrupted JSON_parse_empty history_entry_def
        value_or_raw_def bool_toString_def)

subsection \<open>Serialising and parsing back\<close>

lemma hex_val_hex_digit: "d < 16 \<Longrightarrow> hex_val (hex_digit d) = Some d"
proof -
  assume "d < 16"
  then have "d = 0 \<or> d = 1 \<or> d = 2 \<or> d = 3 \<or> d = 4 \<or> d = 5 \<or> d = 6 \<or> d = 7 \<or>
             d = 8 \<or> d = 9 \<or> d = 10 \<or> d = 11 \<or> d = 12 \<or> d = 13 \<or> d = 14 \<or> d = 15"
    by arith
  then show ?thesis
    by (elim disjE) (simp_all add: hex_digit_def hex_val_def)
qed

lemma unicode_escape_control:
  assumes "(of_char c :: nat) < 32"
  shows "unicode_escape (CHR ''0'') (CHR ''0'')
           (hex_digit ((of_char c :: nat) div 16)) (hex_digit ((of_char c :: nat) mod 16)) = Inr c"
proof -
  have z: "hex_val (CHR ''0'') = Some 0" by (simp add: hex_val_def)
  have a: "hex_val (hex_digit ((of_char c :: nat) div 16)) = Some ((of_char c :: nat) div 16)"
    using assms by (intro hex_val_hex_digit) simp
  have b: "hex_val (hex_digit ((of_char c :: nat) mod 16)) = Some ((of_char c :: nat) mod 16)"
    by (intro hex_val_hex_digit) simp
  show ?thesis using assms by (simp add: unicode_escape_def z a b)
qed

lemma lex_string_quote_char:
  "lex_string opaque acc (quote_char c @ cs) = lex_string opaque (c # acc) cs"
proof (cases "(of_char c :: nat) < 32")
  case True
  then show ?thesis
    by (auto simp: quote_char_def unescape_def unicode_escape_control)
next
  case False
  then show ?thesis
    by (auto simp: quote_char_def unescape_def)
qed

lemma lex_string_body:
  "lex_string False acc (concat (map quote_char s) @ CHR 0x22 # rest)
     = tcons (Tok (TString (rev acc @ s))) (lex rest)"
  by (induction s arbitrary: acc) (simp_all add: lex_string_quote_char del: lex.simps)

lemma lex_render: "lex (render t @ rest) = tcons (Tok t) (lex rest)"
  by (cases t) (simp_all add: is_space_def quote_def lex_string_body del: lex_string.simps)

lemma lex_renders:
  "lex (concat (map render ts) @ rest) = foldr tcons (map Tok ts) (lex rest)"
  by (induction ts) (simp_all add: lex_render del: lex.simps)

lemma foldr_tcons: "foldr tcons ts (Inr us) = Inr (ts @ us)"
  by (induction ts) (simp_all add: tcons_def)

lemma lex_JSON_stringify: "lex (JSON_stringify v) = Inr (map Tok (tokens v))"
  using lex_renders [of "tokens v" "[]"] by (simp add: JSON_stringify_def foldr_tcons)

lemma obj_set_fresh: "k \<notin> fst ` set ms \<Longrightarrow> obj_set k v ms = ms @ [(k, v)]"
  by (induction ms) auto

lemma run_tokens:
  "wf_json v \<Longrightarrow> m = WantValue \<or> m = ValueOrClose \<Longrightarrow>
     run (tokens v @ rest) (m, fs) =
       (case deliver v fs of Inl e \<Rightarrow> Inl e | Inr st \<Rightarrow> run rest st)"
  "wf_elems es \<Longrightarrow> es \<noteq> [] \<Longrightarrow> m = WantValue \<or> m = ValueOrClose \<Longrightarrow>
     run (tokens_elems es @ rest) (m, AFrame acc # fs) =
       run rest (CommaOrClose, AFrame (acc @ es) # fs)"
  "wf_members ms \<Longrightarrow> ms \<noteq> [] \<Longrightarrow> m = KeyOrClose \<or> m = WantKey \<Longrightarrow>
     fst ` set macc \<inter> fst ` set ms = {} \<Longrightarrow>
     run (tokens_members ms @ rest) (m, OFrame macc # fs) =
       run rest (CommaOrClose, OFrame (macc @ ms) # fs)"
proof (induction v and es and ms arbitrary: m rest fs and m rest acc fs and m rest macc fs
       rule: tokens_tokens_elems_tokens_members.induct)
  case 1
  then show ?case by auto
next
  case (2 b)
  then show ?case by auto
next
  case (3 s)
  then show ?case by auto
next
  case (4 es)
  show ?case
  proof (cases "es = []")
    case True
    with 4 show ?thesis by auto
  next
    case False
    have "run (tokens_elems es @ TRBracket # rest) (ValueOrClose, AFrame [] # fs)
            = run (TRBracket # rest) (CommaOrClose, AFrame ([] @ es) # fs)"
      using 4 False by (intro "4.IH") auto
    with 4 show ?thesis by auto
  qed
next
  case (5 ms)
  show ?case
  proof (cases "ms = []")
    case True
    with 5 show ?thesis by auto
  next
    case False
    have "run (tokens_members ms @ TRBrace # rest) (KeyOrClose, OFrame [] # fs)
            = run (TRBrace # rest) (CommaOrClose, OFrame ([] @ ms) # fs)"
      using 5 False by (intro "5.IH") auto
    with 5 show ?thesis by auto
  qed
next
  case 6
  then show ?case by simp
next
  case (7 e es)
  let ?tail = "(if es = [] then [] else TComma # tokens_elems es) @ rest"
  have e: "run (tokens e @ ?tail) (m, AFrame acc # fs) =
             run ?tail (CommaOrClose, AFrame (acc @ [e]) # fs)"
    using 7 by (subst "7.IH"(1)) auto
  show ?case
  proof (cases "es = []")
    case True
    with e show ?thesis by simp
  next
    case False
    have "run (tokens_elems es @ rest) (WantValue, AFrame (acc @ [e]) # fs) =
            run rest (CommaOrClose, AFrame ((acc @ [e]) @ es) # fs)"
      using 7 False by (intro "7.IH"(2)) auto
    with e False show ?thesis by simp
  qed
next
  case 8
  then show ?case by simp
next
  case (9 k v ms)
  let ?tail = "(if ms = [] then [] else TComma # tokens_members ms) @ rest"
  have fresh: "k \<notin> fst ` set macc" using 9 by auto
  have v: "run (tokens v @ ?tail) (WantValue, OKey macc k # fs) =
             run ?tail (CommaOrClose, OFrame (macc @ [(k, v)]) # fs)"
    using 9 fresh by (subst "9.IH"(1)) (auto simp: obj_set_fresh)
  have start: "run (tokens_members ((k, v) # ms) @ rest) (m, OFrame macc # fs) =
                 run (tokens v @ ?tail) (WantValue, OKey macc k # fs)"
    using 9 by auto
  show ?case
  proof (cases "ms = []")
    case True
    with v start show ?thesis by simp
  next
    case False
    have "run (tokens_members ms @ rest) (WantKey, OFrame (macc @ [(k, v)]) # fs) =
            run rest (CommaOrClose, OFrame ((macc @ [(k, v)]) @ ms) # fs)"
      using 9 False by (intro "9.IH"(2)) auto
    with v start False show ?thesis by simp
  qed
qed

lemma wf_json_iff:
  "wf_json v \<longleftrightarrow> distinct_names v \<and> index_free v"
  "wf_elems es \<longleftrightarrow> distinct_names_elems es \<and> index_free_elems es"
  "wf_members ms \<longleftrightarrow> distinct_names_members ms \<and> index_free_members ms"
  by (induction v and es and ms rule: wf_json_wf_elems_wf_members.induct) auto

lemma stand_in_Tok: "map stand_in (map Tok ts) = ts"
  by (induction ts) simp_all

lemma is_token_Tok: "list_all is_token (map Tok ts)"
  by (induction ts) simp_all

theorem JSON_parse_stringify: "wf_json v \<Longrightarrow> JSON_parse (JSON_stringify v) = Inr v"
proof -
  assume wf: "wf_json v"
  then have "run (map stand_in (map Tok (tokens v))) (WantValue, []) = Inr (Finished v, [])"
    using run_tokens(1) [of v WantValue "[]" "[]"] by (simp only: stand_in_Tok) simp
  moreover have "index_free v" using wf by (simp add: wf_json_iff)
  ultimately show ?thesis
    by (simp add: JSON_parse_def lex_JSON_stringify is_token_Tok del: map_map list.pred_map)
qed

lemma distinct_names_elems_append:
  "distinct_names_elems (es @ [v]) \<longleftrightarrow> distinct_names_elems es \<and> distinct_names v"
  by (induction es) auto

lemma member_key: "(k, v) \<in> set ms \<Longrightarrow> k \<in> fst ` set ms"
  by force

lemma map_fst_obj_set:
  "map fst (obj_set k v ms) = (if k \<in> fst ` set ms then map fst ms else map fst ms @ [k])"
  by (induction ms) (auto dest: member_key)

lemma obj_set_keys: "fst ` set (obj_set k v ms) = insert k (fst ` set ms)"
proof -
  have "set (map fst (obj_set k v ms)) = insert k (set (map fst ms))"
    by (simp only: map_fst_obj_set) auto
  then show ?thesis by simp
qed

lemma wf_members_obj_set:
  "wf_members ms \<Longrightarrow> \<not> is_index_key k \<Longrightarrow> wf_json v \<Longrightarrow> wf_members (obj_set k v ms)"
  by (induction ms) (auto simp: obj_set_keys)

lemma distinct_names_members_obj_set:
  "distinct_names_members ms \<Longrightarrow> distinct_names v \<Longrightarrow> distinct_names_members (obj_set k v ms)"
  by (induction ms) (auto simp: obj_set_keys)

lemma wf_pstate_frames: "wf_pstate (m, fs) \<Longrightarrow> list_all wf_frame fs"
  by (cases m) auto

lemma wf_deliver:
  "list_all wf_frame fs \<Longrightarrow> distinct_names v \<Longrightarrow> deliver v fs = Inr st \<Longrightarrow> wf_pstate st"
  by (induction v fs rule: deliver.induct)
     (auto simp: distinct_names_elems_append distinct_names_members_obj_set)

lemma wf_begin_value:
  "list_all wf_frame fs \<Longrightarrow> begin_value t fs = Inr st \<Longrightarrow> wf_pstate st"
  by (cases t) (auto dest: wf_deliver [rotated 2])

lemma wf_begin_key:
  "list_all wf_frame fs \<Longrightarrow> begin_key t fs = Inr st \<Longrightarrow> wf_pstate st"
  by (induction t fs rule: begin_key.induct) (auto split: if_splits)

lemma wf_close_array:
  "list_all wf_frame fs \<Longrightarrow> close_array fs = Inr st \<Longrightarrow> wf_pstate st"
  by (induction fs rule: close_array.induct) (auto dest: wf_deliver [rotated 2])

lemma wf_close_object:
  "list_all wf_frame fs \<Longrightarrow> close_object fs = Inr st \<Longrightarrow> wf_pstate st"
  by (induction fs rule: close_object.induct) (auto dest: wf_deliver [rotated 2])

lemma wf_next_item:
  "list_all wf_frame fs \<Longrightarrow> next_item fs = Inr st \<Longrightarrow> wf_pstate st"
  by (induction fs rule: next_item.induct) auto

lemma wf_step: "wf_pstate st \<Longrightarrow> step st t = Inr st' \<Longrightarrow> wf_pstate st'"
proof -
  assume wf: "wf_pstate st" and s: "step st t = Inr st'"
  obtain m fs where st: "st = (m, fs)" by (cases st)
  from wf st have fs: "list_all wf_frame fs" by (auto dest: wf_pstate_frames)
  from s st fs show ?thesis
    by (cases m)
       (auto split: if_splits
             dest: wf_begin_value wf_begin_key wf_close_array wf_close_object wf_next_item)
qed

lemma wf_run: "wf_pstate st \<Longrightarrow> run ts st = Inr st' \<Longrightarrow> wf_pstate st'"
  by (induction ts arbitrary: st) (auto split: sum.splits dest: wf_step)

lemma wf_JSON_parse: "JSON_parse text = Inr v \<Longrightarrow> wf_json v"
proof -
  assume p: "JSON_parse text = Inr v"
  then obtain ts st where "run ts (WantValue, []) = Inr st" and f: "finish st = Inr v"
    and i: "index_free v"
    by (auto simp: JSON_parse_def split: sum.splits if_splits)
  then have "wf_pstate st" by (intro wf_run [of "(WantValue, [])" ts st]) auto
  with f have "distinct_names v" by (cases st rule: finish.cases) auto
  with i show ?thesis by (simp add: wf_json_iff)
qed

subsection \<open>Moving and assigning a bag\<close>

lemma obj_get_obj_set: "obj_get k (obj_set k' v ms) = (if k = k' then Some v else obj_get k ms)"
  by (induction ms) (auto simp: obj_get_def)

lemma JSON_parse_nonempty: "JSON_parse bytes = Inr v \<Longrightarrow> bytes \<noteq> []"
  by (auto simp: JSON_parse_empty)

lemma getState_putState: "getState (putState st k v) k' = (if k' = k then v else getState st k')"
  by (simp add: getState_def putState_def)

lemma putState_twice: "putState (putState st k v) k v' = putState st k v'"
  by (simp add: putState_def)

lemma wf_assigned:
  "wf_members ms \<Longrightarrow>
   wf_members (obj_set ''status'' (JStr s) (obj_set ''destination'' (JStr d)
                 (obj_set ''recipient'' (JStr r) ms)))"
  by (auto intro!: wf_members_obj_set simp: is_digit_def)

lemma wf_moved:
  "wf_members ms \<Longrightarrow>
   wf_members (obj_set ''status'' (JStr s) (obj_set ''location'' (JStr l) ms))"
  by (auto intro!: wf_members_obj_set simp: is_digit_def)

lemma wf_sample_bag: "wf_members (sample_bag l s r d)"
  by (simp add: sample_bag_def is_digit_def)

lemma JSON_parse_sample_bag:
  "JSON_parse (getState [''B1'' \<mapsto> JSON_stringify (JObj (sample_bag l s r d))] ''B1'')
     = Inr (JObj (sample_bag l s r d))"
  by (simp add: getState_def JSON_parse_stringify wf_sample_bag)

text \<open>What the two mutators do to a stored object.\<close>

lemma moveBagToLocation_object:
  assumes "JSON_parse (getState st ID) = Inr (JObj ms)"
      and "obj_get ''destination'' ms = Some (JStr d)"
  shows "moveBagToLocation (ID # location # extra) st =
           (Inr (), putState st ID (JSON_stringify (JObj
              (obj_set ''status'' (JStr (if d = location then ''RECEIVED'' else ''INTRANSIT''))
                 (obj_set ''location'' (JStr location) ms)))))"
  using assms JSON_parse_nonempty [OF assms(1)]
  by (simp add: moveBagToLocation_def buffer_is_falsy_def then_set_def)

lemma assignBloodBagReceiver_object:
  assumes "JSON_parse (getState st ID) = Inr (JObj ms)"
  shows "assignBloodBagReceiver (ID # recipient # destination # extra) st =
           (Inr (), putState st ID (JSON_stringify (JObj
              (obj_set ''status'' (JStr ''ASSIGNED'')
                 (obj_set ''destination'' (JStr destination)
                    (obj_set ''recipient'' (JStr recipient) ms))))))"
  using assms JSON_parse_nonempty [OF assms]
  by (simp add: assignBloodBagReceiver_def buffer_is_falsy_def then_set_def)

text \<open>
  C6: when the stored bytes decode to a record whose destination is the string \<open>d\<close>,
  \<open>moveBagToLocation\<close> succeeds and writes the whole record back under the id, with
  \<open>location\<close> set to the new location and \<open>status\<close> set to \<open>RECEIVED\<close> when
  the new location equals \<open>d\<close> and to \<open>INTRANSIT\<close> otherwise, whatever \<open>d\<close> is;
  reading the id back decodes to that record.
\<close>

theorem moveBagToLocation_transition:
  assumes "JSON_parse (getState st ID) = Inr (JObj ms)"
      and "obj_get ''destination'' ms = Some (JStr d)"
      and "ms' = obj_set ''status'' (JStr (if location = d then ''RECEIVED'' else ''INTRANSIT''))
                   (obj_set ''location'' (JStr location) ms)"
  shows "moveBagToLocation (ID # location # extra) st
           = (Inr (), putState st ID (JSON_stringify (JObj ms')))
         \<and> JSON_parse (getState (snd (moveBagToLocation (ID # location # extra) st)) ID)
             = Inr (JObj ms')
         \<and> obj_get ''location'' ms' = Some (JStr location)
         \<and> obj_get ''status'' ms'
             = Some (JStr (if location = d then ''RECEIVED'' else ''INTRANSIT''))"
proof -
  have run: "moveBagToLocation (ID # location # extra) st
               = (Inr (), putState st ID (JSON_stringify (JObj ms')))"
    using moveBagToLocation_object [OF assms(1,2), of location extra] assms(3)
    by (simp add: eq_commute [of d location])
  have "wf_members ms" using wf_JSON_parse [OF assms(1)] by simp
  then have "wf_json (JObj ms')"
    using assms(3) by (auto intro!: wf_members_obj_set simp: is_digit_def)
  then have "JSON_parse (JSON_stringify (JObj ms')) = Inr (JObj ms')"
    by (rule JSON_parse_stringify)
  with run show ?thesis
    using assms(3) by (simp add: getState_putState obj_get_obj_set)
qed

theorem moveBagToLocation_transition_witness:
  "moveBagToLocation [''B1'', ''Hospital'']
       [''B1'' \<mapsto> JSON_stringify (JObj (sample_bag ''Lab'' ''ASSIGNED'' ''R1'' ''Hospital''))]
     = (Inr (), [''B1'' \<mapsto> JSON_stringify (JObj (sample_bag ''Hospital'' ''RECEIVED'' ''R1'' ''Hospital''))])
   \<and> moveBagToLocation [''B1'', ''Hospital'']
       [''B1'' \<mapsto> JSON_stringify (JObj (sample_bag ''Lab'' ''UNASIGNED'' ''UNASIGNED'' ''UNASIGNED''))]
     = (Inr (), [''B1'' \<mapsto> JSON_stringify (JObj (sample_bag ''Hospital'' ''INTRANSIT'' ''UNASIGNED'' ''UNASIGNED''))])"
  using moveBagToLocation_transition
          [OF JSON_parse_sample_bag [of "''Lab''" "''ASSIGNED''" "''R1''" "''Hospital''"], 
           of "''Hospital''" "sample_bag ''Hospital'' ''RECEIVED'' ''R1'' ''Hospital''" "''Hospital''" "[]"]
        moveBagToLocation_transition
          [OF JSON_parse_sample_bag [of "''Lab''" "''UNASIGNED''" "''UNASIGNED''" "''UNASIGNED''"], 
           of "''UNASIGNED''" "sample_bag ''Hospital'' ''INTRANSIT'' ''UNASIGNED'' ''UNASIGNED''" "''Hospital''" "[]"]
  by (simp add: sample_bag_def obj_get_def putState_def)

lemma obj_set_twice: "obj_set k v2 (obj_set k v1 ms) = obj_set k v2 ms"
  by (induction ms) auto

lemma obj_set_commute:
  "k \<noteq> k' \<Longrightarrow> k \<in> fst ` set ms \<Longrightarrow>
   obj_set k v (obj_set k' v' ms) = obj_set k' v' (obj_set k v ms)"
proof (induction ms)
  case Nil
  then show ?case by simp
next
  case (Cons m ms)
  obtain a b where m: "m = (a, b)" by (cases m)
  show ?case
  proof (cases "a = k")
    case True
    with m Cons.prems show ?thesis by simp
  next
    case False
    with m Cons.prems have "k \<in> fst ` set ms" by auto
    then have "obj_set k v (obj_set k' v' ms) = obj_set k' v' (obj_set k v ms)"
      using Cons.prems(1) by (rule Cons.IH [rotated])
    with m False show ?thesis by simp
  qed
qed

lemma assign_twice:
  "obj_set ''status'' s2 (obj_set ''destination'' d2 (obj_set ''recipient'' r2
     (obj_set ''status'' s1 (obj_set ''destination'' d1 (obj_set ''recipient'' r1 ms)))))
   = obj_set ''status'' s2 (obj_set ''destination'' d2 (obj_set ''recipient'' r2 ms))"
proof -
  let ?R = "obj_set ''recipient''" and ?D = "obj_set ''destination''" and ?S = "obj_set ''status''"
  have "?R r2 (?S s1 (?D d1 (?R r1 ms))) = ?S s1 (?R r2 (?D d1 (?R r1 ms)))"
    by (rule obj_set_commute) (simp_all add: obj_set_keys)
  also have "?R r2 (?D d1 (?R r1 ms)) = ?D d1 (?R r2 (?R r1 ms))"
    by (rule obj_set_commute) (simp_all add: obj_set_keys)
  finally have r: "?R r2 (?S s1 (?D d1 (?R r1 ms))) = ?S s1 (?D d1 (?R r2 ms))"
    by (simp add: obj_set_twice)
  have "?D d2 (?S s1 (?D d1 (?R r2 ms))) = ?S s1 (?D d2 (?D d1 (?R r2 ms)))"
    by (rule obj_set_commute) (simp_all add: obj_set_keys)
  then have d: "?D d2 (?S s1 (?D d1 (?R r2 ms))) = ?S s1 (?D d2 (?R r2 ms))"
    by (simp add: obj_set_twice)
  show ?thesis by (simp only: r d obj_set_twice)
qed

text \<open>
  C7: when the stored bytes decode to a record, \<open>assignBloodBagReceiver\<close> succeeds,
  and so does a second call with other arguments; after both, the ledger is the one
  the second call alone would have produced: the record holds the second recipient
  and destination and the status \<open>ASSIGNED\<close>.
\<close>

theorem assignBloodBagReceiver_last_write_wins:
  assumes "JSON_parse (getState st ID) = Inr (JObj ms)"
      and "st1 = snd (assignBloodBagReceiver (ID # r1 # d1 # extra1) st)"
      and "st2 = snd (assignBloodBagReceiver (ID # r2 # d2 # extra2) st1)"
      and "ms2 = obj_set ''status'' (JStr ''ASSIGNED'')
                   (obj_set ''destination'' (JStr d2) (obj_set ''recipient'' (JStr r2) ms))"
  shows "fst (assignBloodBagReceiver (ID # r1 # d1 # extra1) st) = Inr ()
         \<and> fst (assignBloodBagReceiver (ID # r2 # d2 # extra2) st1) = Inr ()
         \<and> st2 = putState st ID (JSON_stringify (JObj ms2))
         \<and> JSON_parse (getState st2 ID) = Inr (JObj ms2)
         \<and> obj_get ''recipient'' ms2 = Some (JStr r2)
         \<and> obj_get ''destination'' ms2 = Some (JStr d2)
         \<and> obj_get ''status'' ms2 = Some (JStr ''ASSIGNED'')"
proof -
  let ?ms1 = "obj_set ''status'' (JStr ''ASSIGNED'')
                (obj_set ''destination'' (JStr d1) (obj_set ''recipient'' (JStr r1) ms))"
  have wf: "wf_members ms" using wf_JSON_parse [OF assms(1)] by simp
  have first: "assignBloodBagReceiver (ID # r1 # d1 # extra1) st
                 = (Inr (), putState st ID (JSON_stringify (JObj ?ms1)))"
    using assms(1) by (rule assignBloodBagReceiver_object)
  then have st1: "st1 = putState st ID (JSON_stringify (JObj ?ms1))"
    using assms(2) by simp
  have "JSON_parse (JSON_stringify (JObj ?ms1)) = Inr (JObj ?ms1)"
    using wf by (intro JSON_parse_stringify) (simp add: wf_assigned)
  then have reread: "JSON_parse (getState st1 ID) = Inr (JObj ?ms1)"
    using st1 by (simp add: getState_putState)
  have second: "assignBloodBagReceiver (ID # r2 # d2 # extra2) st1
                  = (Inr (), putState st1 ID (JSON_stringify (JObj ms2)))"
    using assignBloodBagReceiver_object [OF reread, of r2 d2 extra2] assms(4)
    by (simp only: assign_twice)
  then have st2: "st2 = putState st ID (JSON_stringify (JObj ms2))"
    using assms(3) st1 by (simp add: putState_twice)
  have "JSON_parse (JSON_stringify (JObj ms2)) = Inr (JObj ms2)"
    using wf assms(4) by (intro JSON_parse_stringify) (simp add: wf_assigned)
  then have "JSON_parse (getState st2 ID) = Inr (JObj ms2)"
    using st2 by (simp add: getState_putState)
  moreover have "obj_get ''recipient'' ms2 = Some (JStr r2)"
    and "obj_get ''destination'' ms2 = Some (JStr d2)"
    and "obj_get ''status'' ms2 = Some (JStr ''ASSIGNED'')"
    using assms(4) by (simp_all add: obj_get_obj_set)
  ultimately show ?thesis using first second st2 by simp
qed

theorem assignBloodBagReceiver_last_write_wins_witness:
  "fst (assignBloodBagReceiver [''B1'', ''R1'', ''Hospital'']
         [''B1'' \<mapsto> JSON_stringify (JObj (sample_bag ''Lab'' ''UNASIGNED'' ''UNASIGNED'' ''UNASIGNED''))]) = Inr ()
   \<and> assignBloodBagReceiver [''B1'', ''R2'', ''Clinic'']
        (snd (assignBloodBagReceiver [''B1'', ''R1'', ''Hospital'']
           [''B1'' \<mapsto> JSON_stringify (JObj (sample_bag ''Lab'' ''UNASIGNED'' ''UNASIGNED'' ''UNASIGNED''))]))
     = (Inr (), [''B1'' \<mapsto> JSON_stringify (JObj (sample_bag ''Lab'' ''ASSIGNED'' ''R2'' ''Clinic''))])"
  using assignBloodBagReceiver_last_write_wins
          [OF JSON_parse_sample_bag [of "''Lab''" "''UNASIGNED''" "''UNASIGNED''" "''UNASIGNED''"] refl refl refl,
           of "''R1''" "''Hospital''" "[]" "''R2''" "''Clinic''" "[]"]
  by (simp add: sample_bag_def putState_def prod_eq_iff)

text \<open>
  C9: a successful \<open>moveBagToLocation\<close> leaves every property of the record other
  than \<open>location\<close> and \<open>status\<close> as it was (so \<open>id\<close>, \<open>originId\<close>,
  \<open>type\<close>, \<open>rh\<close>, \<open>size\<close>, \<open>recipient\<close> and \<open>destination\<close>), and a
  successful \<open>assignBloodBagReceiver\<close> every property other than \<open>recipient\<close>,
  \<open>destination\<close> and \<open>status\<close> (so \<open>id\<close>, \<open>originId\<close>, \<open>type\<close>,
  \<open>rh\<close>, \<open>size\<close> and \<open>location\<close>).
\<close>

theorem mutators_keep_other_fields:
  assumes "JSON_parse (getState st ID) = Inr (JObj ms)"
  shows "(moveBagToLocation (ID # location # extra) st = (Inr (), st') \<longrightarrow>
            (\<exists>ms'. JSON_parse (getState st' ID) = Inr (JObj ms')
               \<and> (\<forall>k. k \<noteq> ''location'' \<and> k \<noteq> ''status'' \<longrightarrow> obj_get k ms' = obj_get k ms)))
       \<and> (assignBloodBagReceiver (ID # recipient # destination # extra) st = (Inr (), st'') \<longrightarrow>
            (\<exists>ms'. JSON_parse (getState st'' ID) = Inr (JObj ms')
               \<and> (\<forall>k. k \<noteq> ''recipient'' \<and> k \<noteq> ''destination'' \<and> k \<noteq> ''status'' \<longrightarrow>
                      obj_get k ms' = obj_get k ms)))"
proof (intro conjI impI)
  have wf: "wf_members ms" using wf_JSON_parse [OF assms] by simp
  have ne: "getState st ID \<noteq> []" using assms by (rule JSON_parse_nonempty)
  {
    assume run: "moveBagToLocation (ID # location # extra) st = (Inr (), st')"
    then obtain s where st': "st' = putState st ID (JSON_stringify (JObj
        (obj_set ''status'' (JStr s) (obj_set ''location'' (JStr location) ms))))"
      using assms ne
      by (auto simp: moveBagToLocation_def buffer_is_falsy_def then_set_def
               split: option.splits if_splits)
    let ?ms' = "obj_set ''status'' (JStr s) (obj_set ''location'' (JStr location) ms)"
    have "JSON_parse (JSON_stringify (JObj ?ms')) = Inr (JObj ?ms')"
      using wf by (intro JSON_parse_stringify) (simp add: wf_moved)
    then have "JSON_parse (getState st' ID) = Inr (JObj ?ms')"
      using st' by (simp add: getState_putState)
    moreover have "\<forall>k. k \<noteq> ''location'' \<and> k \<noteq> ''status'' \<longrightarrow> obj_get k ?ms' = obj_get k ms"
      by (simp add: obj_get_obj_set)
    ultimately show "\<exists>ms'. JSON_parse (getState st' ID) = Inr (JObj ms')
               \<and> (\<forall>k. k \<noteq> ''location'' \<and> k \<noteq> ''status'' \<longrightarrow> obj_get k ms' = obj_get k ms)"
      by blast
  }
  {
    assume run: "assignBloodBagReceiver (ID # recipient # destination # extra) st = (Inr (), st'')"
    let ?ms' = "obj_set ''status'' (JStr ''ASSIGNED'')
                  (obj_set ''destination'' (JStr destination)
                     (obj_set ''recipient'' (JStr recipient) ms))"
    have st'': "st'' = putState st ID (JSON_stringify (JObj ?ms'))"
      using run assignBloodBagReceiver_object [OF assms, of recipient destination extra] by simp
    have "JSON_parse (JSON_stringify (JObj ?ms')) = Inr (JObj ?ms')"
      using wf by (intro JSON_parse_stringify) (simp add: wf_assigned)
    then have "JSON_parse (getState st'' ID) = Inr (JObj ?ms')"
      using st'' by (simp add: getState_putState)
    moreover have "\<forall>k. k \<noteq> ''recipient'' \<and> k \<noteq> ''destination'' \<and> k \<noteq> ''status'' \<longrightarrow>
                      obj_get k ?ms' = obj_get k ms"
      by (simp add: obj_get_obj_set)
    ultimately show "\<exists>ms'. JSON_parse (getState st'' ID) = Inr (JObj ms')
               \<and> (\<forall>k. k \<noteq> ''recipient'' \<and> k \<noteq> ''destination'' \<and> k \<noteq> ''status'' \<longrightarrow>
                      obj_get k ms' = obj_get k ms)"
      by blast
  }
qed

theorem mutators_keep_other_fields_witness:
  "JSON_parse (getState
      (snd (moveBagToLocation [''B1'', ''Hospital'']
         [''B1'' \<mapsto> JSON_stringify (JObj (sample_bag ''Lab'' ''ASSIGNED'' ''R1'' ''Hospital''))])) ''B1'')
     = Inr (JObj (sample_bag ''Hospital'' ''RECEIVED'' ''R1'' ''Hospital''))
   \<and> JSON_parse (getState
      (snd (assignBloodBagReceiver [''B1'', ''R2'', ''Clinic'']
         [''B1'' \<mapsto> JSON_stringify (JObj (sample_bag ''Lab'' ''ASSIGNED'' ''R1'' ''Hospital''))])) ''B1'')
     = Inr (JObj (sample_bag ''Lab'' ''ASSIGNED'' ''R2'' ''Clinic''))"
proof -
  let ?st = "[''B1'' \<mapsto> JSON_stringify (JObj (sample_bag ''Lab'' ''ASSIGNED'' ''R1'' ''Hospital''))]"
  let ?m = "snd (moveBagToLocation [''B1'', ''Hospital''] ?st)"
  let ?a = "snd (assignBloodBagReceiver [''B1'', ''R2'', ''Clinic''] ?st)"
  have p: "JSON_parse (getState ?st ''B1'') = Inr (JObj (sample_bag ''Lab'' ''ASSIGNED'' ''R1'' ''Hospital''))"
    by (rule JSON_parse_sample_bag)
  have m: "moveBagToLocation [''B1'', ''Hospital''] ?st
             = (Inr (), [''B1'' \<mapsto> JSON_stringify (JObj (sample_bag ''Hospital'' ''RECEIVED'' ''R1'' ''Hospital''))])"
    using moveBagToLocation_object [OF p, of "''Hospital''" "''Hospital''" "[]"]
    by (simp add: sample_bag_def obj_get_def putState_def)
  have a: "assignBloodBagReceiver [''B1'', ''R2'', ''Clinic''] ?st
             = (Inr (), [''B1'' \<mapsto> JSON_stringify (JObj (sample_bag ''Lab'' ''ASSIGNED'' ''R2'' ''Clinic''))])"
    using assignBloodBagReceiver_object [OF p, of "''R2''" "''Clinic''" "[]"]
    by (simp add: sample_bag_def putState_def)
  show ?thesis
    using mutators_keep_other_fields [OF p, of "''Hospital''" "[]" ?m "''R2''" "''Clinic''" ?a] m a
    by (simp add: JSON_parse_sample_bag)
qed

subsection \<open>Creating a bag and reading it back\<close>

lemma JSON_parse_sentinel: "JSON_parse [CHR 0x00] = Inl SyntaxError"
  by (simp add: JSON_parse_def is_space_def is_digit_def)

lemma wf_created_bag: "wf_members (created_bag i oi l t rh sz)"
  by (simp add: created_bag_def is_digit_def)

lemma JSON_parse_created_bag:
  "JSON_parse (JSON_stringify (JObj (created_bag i oi l t rh sz))) = Inr (JObj (created_bag i oi l t rh sz))"
  by (simp add: JSON_parse_stringify wf_created_bag)

lemma obj_get_created_bag:
  "obj_get ''docType'' (created_bag i oi l t rh sz) = Some (JStr ''bloodbag'')"
  "obj_get ''id'' (created_bag i oi l t rh sz) = Some (JStr i)"
  "obj_get ''type'' (created_bag i oi l t rh sz) = Some (JStr t)"
  "obj_get ''destination'' (created_bag i oi l t rh sz) = Some (JStr ''UNASIGNED'')"
  by (simp_all add: created_bag_def obj_get_def)

lemma createCompositeKey_type_id:
  "t \<noteq> [] \<Longrightarrow> i \<noteq> [] \<Longrightarrow>
   createCompositeKey ''type~id'' [Some (JStr t), Some (JStr i)] = Inr (type_id_key t i)"
  by (simp add: createCompositeKey_def type_id_key_def)

lemma type_id_key_neq: "type_id_key t i \<noteq> i"
proof
  assume "type_id_key t i = i"
  then have "length (type_id_key t i) = length i" by simp
  then show False by (simp add: type_id_key_def)
qed

lemma six_args:
  "length args = 6 \<Longrightarrow> \<exists>i oi l t rh sz. args = [i, oi, l, t, rh, sz]"
  by (auto simp: length_Suc_conv numeral_eq_Suc)

lemma createBloodBag_fresh:
  assumes "list_all (\<lambda>a. a \<noteq> []) [i, oi, l, t, rh, sz]" and "getState st i = []"
  shows "createBloodBag [i, oi, l, t, rh, sz] st =
           (Inr (), putState (putState st i (JSON_stringify (JObj (created_bag i oi l t rh sz))))
                      (type_id_key t i) [CHR 0x00])"
  using assms
  by (simp add: createBloodBag_def Let_def created_bag_def [symmetric] obj_get_created_bag
        createCompositeKey_type_id)

lemma createBloodBag_state:
  "snd (createBloodBag args st) = st \<or>
   (\<exists>i oi l t rh sz. args = [i, oi, l, t, rh, sz] \<and> i \<noteq> [] \<and> t \<noteq> [] \<and> getState st i = [] \<and>
      snd (createBloodBag args st) =
        putState (putState st i (JSON_stringify (JObj (created_bag i oi l t rh sz))))
          (type_id_key t i) [CHR 0x00])"
proof (cases "length args = 6 \<and> list_all (\<lambda>a. a \<noteq> []) args \<and> getState st (args ! 0) = []")
  case True
  then obtain i oi l t rh sz where a: "args = [i, oi, l, t, rh, sz]"
    using six_args by blast
  with True show ?thesis using createBloodBag_fresh [of i oi l t rh sz st] by auto
next
  case False
  then have "snd (createBloodBag args st) = st"
    by (auto simp: createBloodBag_def Let_def list_all_length less_Suc_eq numeral_eq_Suc)
  then show ?thesis ..
qed

text \<open>
  After a successful \<open>createBloodBag\<close>, \<open>readBloodBag\<close> returns the serialised
  record, with the six arguments in their fields.
\<close>

lemma create_then_read:
  assumes "list_all (\<lambda>a. a \<noteq> []) [i, oi, l, t, rh, sz]" and "getState st i = []"
  shows "readBloodBag [i] (snd (createBloodBag [i, oi, l, t, rh, sz] st))
           = Inr (JSON_stringify (JObj (created_bag i oi l t rh sz)))"
  using assms type_id_key_neq [of t i] JSON_parse_nonempty [OF JSON_parse_created_bag [of i oi l t rh sz]]
  by (simp add: createBloodBag_fresh readBloodBag_def getState_putState)

text \<open>
  C1 at the input \<open>B1, O1, Lab, O, +, 450\<close> on the empty ledger: the bytes read back
  decode to a record that holds the six arguments, and whose \<open>status\<close>,
  \<open>recipient\<close> and \<open>destination\<close> are the string \<open>UNASIGNED\<close>, which is not the
  string \<open>UNASSIGNED\<close>.
\<close>

theorem createBloodBag_read_UNASIGNED:
  "map_sum id JSON_parse
     (readBloodBag [''B1''] (snd (createBloodBag [''B1'', ''O1'', ''Lab'', ''O'', ''+'', ''450''] Map.empty)))
     = Inr (Inr (JObj
         [(''docType'', JStr ''bloodbag''),
          (''id'', JStr ''B1''),
          (''originId'', JStr ''O1''),
          (''location'', JStr ''Lab''),
          (''status'', JStr ''UNASIGNED''),
          (''recipient'', JStr ''UNASIGNED''),
          (''destination'', JStr ''UNASIGNED''),
          (''type'', JStr ''O''),
          (''rh'', JStr ''+''),
          (''size'', JStr ''450'')]))
   \<and> ''UNASIGNED'' \<noteq> ''UNASSIGNED''"
  using create_then_read [of "''B1''" "''O1''" "''Lab''" "''O''" "''+''" "''450''" Map.empty]
        JSON_parse_created_bag [of "''B1''" "''O1''" "''Lab''" "''O''" "''+''" "''450''"]
  by (simp add: getState_def created_bag_def)

subsection \<open>What a reachable ledger stores\<close>

lemma bag_value_fields:
  "bag_value v \<Longrightarrow>
   \<exists>ms d. JSON_parse v = Inr (JObj ms) \<and> obj_get ''docType'' ms = Some (JStr ''bloodbag'') \<and>
          obj_get ''destination'' ms = Some (JStr d)"
  apply (auto simp: bag_value_def split: sum.splits json.splits option.splits)
  subgoal for ms x by (cases x) auto
  done

lemma bag_valueE:
  assumes "bag_value v"
  obtains ms d where "JSON_parse v = Inr (JObj ms)"
    and "obj_get ''docType'' ms = Some (JStr ''bloodbag'')"
    and "obj_get ''destination'' ms = Some (JStr d)"
  using bag_value_fields [OF assms] by blast

lemma bag_valueI:
  "JSON_parse v = Inr (JObj ms) \<Longrightarrow> obj_get ''docType'' ms = Some (JStr ''bloodbag'') \<Longrightarrow>
   obj_get ''destination'' ms = Some (JStr d) \<Longrightarrow> bag_value v"
  by (simp add: bag_value_def)

lemma bag_value_created: "bag_value (JSON_stringify (JObj (created_bag i oi l t rh sz)))"
  by (rule bag_valueI [OF JSON_parse_created_bag]) (simp_all add: obj_get_created_bag)

lemma stored_values_ok_putState:
  "stored_values_ok st \<Longrightarrow> v = [CHR 0x00] \<or> bag_value v \<Longrightarrow> stored_values_ok (putState st k v)"
  by (simp add: stored_values_ok_def putState_def)

lemma stored_values_ok_deleteState:
  "stored_values_ok st \<Longrightarrow> stored_values_ok (deleteState st k)"
  by (simp add: stored_values_ok_def deleteState_def)

lemma stored_values_ok_create:
  "stored_values_ok st \<Longrightarrow> stored_values_ok (snd (createBloodBag args st))"
  using createBloodBag_state [of args st]
  by (auto intro!: stored_values_ok_putState bag_value_created)

lemma deleteBloodBag_state:
  "snd (deleteBloodBag args st) = st \<or>
   snd (deleteBloodBag args st) = deleteState st (args ! 0) \<or>
   (\<exists>key. snd (deleteBloodBag args st) = deleteState (deleteState st (args ! 0)) key)"
  by (auto simp: deleteBloodBag_def Let_def split: sum.splits parse_error.splits)

lemma stored_values_ok_delete:
  "stored_values_ok st \<Longrightarrow> stored_values_ok (snd (deleteBloodBag args st))"
  using deleteBloodBag_state [of args st]
  by (auto intro!: stored_values_ok_deleteState)

lemma two_args: "\<not> length args < 2 \<Longrightarrow> \<exists>a b extra. args = a # b # extra"
  by (cases args rule: list.exhaust; simp; rename_tac a as; case_tac as; simp)

lemma three_args: "\<not> length args < 3 \<Longrightarrow> \<exists>a b c extra. args = a # b # c # extra"
  by (cases args; simp; rename_tac a as; case_tac as; simp; rename_tac b bs; case_tac bs; simp)

lemma stored_value_cases:
  assumes "stored_values_ok st"
  obtains (absent) "getState st k = []" | (sentinel) "getState st k = [CHR 0x00]"
    | (bag) "bag_value (getState st k)"
  using assms by (cases "st k") (auto simp: stored_values_ok_def getState_def)

lemma stored_values_ok_move:
  assumes "stored_values_ok st"
  shows "stored_values_ok (snd (moveBagToLocation args st))"
proof (cases "length args < 2")
  case True
  with assms show ?thesis by (simp add: moveBagToLocation_def)
next
  case False
  then obtain ID location extra where args: "args = ID # location # extra"
    using two_args by blast
  show ?thesis
  proof (rule stored_value_cases [OF assms, of ID])
    assume "getState st ID = []"
    with assms args show ?thesis by (simp add: moveBagToLocation_def)
  next
    assume "getState st ID = [CHR 0x00]"
    with assms args show ?thesis
      by (simp add: moveBagToLocation_def buffer_is_falsy_def JSON_parse_sentinel)
  next
    assume "bag_value (getState st ID)"
    then obtain ms d where p: "JSON_parse (getState st ID) = Inr (JObj ms)"
      and doc: "obj_get ''docType'' ms = Some (JStr ''bloodbag'')"
      and dest: "obj_get ''destination'' ms = Some (JStr d)"
      by (rule bag_valueE)
    let ?ms' = "obj_set ''status'' (JStr (if d = location then ''RECEIVED'' else ''INTRANSIT''))
                  (obj_set ''location'' (JStr location) ms)"
    have "wf_members ms" using wf_JSON_parse [OF p] by simp
    then have "JSON_parse (JSON_stringify (JObj ?ms')) = Inr (JObj ?ms')"
      by (intro JSON_parse_stringify) (simp add: wf_moved)
    then have "bag_value (JSON_stringify (JObj ?ms'))"
      by (rule bag_valueI) (simp_all add: obj_get_obj_set doc dest)
    then show ?thesis
      using assms args moveBagToLocation_object [OF p dest, of location extra]
      by (simp add: stored_values_ok_putState)
  qed
qed

lemma stored_values_ok_assign:
  assumes "stored_values_ok st"
  shows "stored_values_ok (snd (assignBloodBagReceiver args st))"
proof (cases "length args < 3")
  case True
  with assms show ?thesis by (simp add: assignBloodBagReceiver_def)
next
  case False
  then obtain ID recipient destination extra where args: "args = ID # recipient # destination # extra"
    using three_args by blast
  show ?thesis
  proof (rule stored_value_cases [OF assms, of ID])
    assume "getState st ID = []"
    with assms args show ?thesis by (simp add: assignBloodBagReceiver_def)
  next
    assume "getState st ID = [CHR 0x00]"
    with assms args show ?thesis
      by (simp add: assignBloodBagReceiver_def buffer_is_falsy_def JSON_parse_sentinel)
  next
    assume "bag_value (getState st ID)"
    then obtain ms d where p: "JSON_parse (getState st ID) = Inr (JObj ms)"
      and doc: "obj_get ''docType'' ms = Some (JStr ''bloodbag'')"
      by (rule bag_valueE)
    let ?ms' = "obj_set ''status'' (JStr ''ASSIGNED'')
                  (obj_set ''destination'' (JStr destination)
                     (obj_set ''recipient'' (JStr recipient) ms))"
    have "wf_members ms" using wf_JSON_parse [OF p] by simp
    then have "JSON_parse (JSON_stringify (JObj ?ms')) = Inr (JObj ?ms')"
      by (intro JSON_parse_stringify) (simp add: wf_assigned)
    then have "bag_value (JSON_stringify (JObj ?ms'))"
      by (rule bag_valueI) (simp_all add: obj_get_obj_set doc)
    then show ?thesis
      using assms args assignBloodBagReceiver_object [OF p, of recipient destination extra]
      by (simp add: stored_values_ok_putState)
  qed
qed

lemma stored_values_ok_empty: "stored_values_ok Map.empty"
  by (simp add: stored_values_ok_def)

lemma reachable_stored_values_ok: "reachable st \<Longrightarrow> stored_values_ok st"
  by (induction rule: reachable.induct)
     (simp_all add: stored_values_ok_empty stored_values_ok_create stored_values_ok_delete
        stored_values_ok_move stored_values_ok_assign)

text \<open>
  On a reachable ledger no call depends on a part of JavaScript that the model leaves
  out.
\<close>

lemma get_property_error: "get_property v k = Inl e \<Longrightarrow> e = TypeError"
  by (cases v) auto

lemma set_property_error: "set_property v k x = Inl e \<Longrightarrow> e = TypeError"
  by (cases v) auto

lemma reachable_inside_model:
  assumes "reachable st"
  shows "fst (createBloodBag args st) \<noteq> Inl OutsideModel"
    and "fst (deleteBloodBag args st) \<noteq> Inl OutsideModel"
    and "fst (moveBagToLocation args st) \<noteq> Inl OutsideModel"
    and "fst (assignBloodBagReceiver args st) \<noteq> Inl OutsideModel"
proof -
  have ok: "stored_values_ok st" using assms by (rule reachable_stored_values_ok)
  show "fst (createBloodBag args st) \<noteq> Inl OutsideModel"
    by (auto simp: createBloodBag_def Let_def createCompositeKey_def
             split: sum.splits option.splits if_splits)
  have parse: "JSON_parse (getState st k) \<noteq> Inl Unmodelled" for k
    by (rule stored_value_cases [OF ok, of k])
       (auto simp: JSON_parse_empty JSON_parse_sentinel elim: bag_valueE)
  show "fst (deleteBloodBag args st) \<noteq> Inl OutsideModel"
    using parse [of "args ! 0"]
    by (auto simp: deleteBloodBag_def Let_def createCompositeKey_def
             split: sum.splits option.splits if_splits parse_error.splits
             dest: get_property_error)
  show "fst (assignBloodBagReceiver args st) \<noteq> Inl OutsideModel"
    using parse [of "args ! 0"]
    by (auto simp: assignBloodBagReceiver_def Let_def then_set_def
             split: sum.splits option.splits if_splits parse_error.splits
             dest: set_property_error)
  show "fst (moveBagToLocation args st) \<noteq> Inl OutsideModel"
  proof (cases "length args < 2")
    case True
    then show ?thesis by (simp add: moveBagToLocation_def)
  next
    case False
    then obtain ID location extra where args: "args = ID # location # extra"
      using two_args by blast
    show ?thesis
    proof (rule stored_value_cases [OF ok, of ID])
      assume "getState st ID = []"
      with args show ?thesis by (simp add: moveBagToLocation_def)
    next
      assume "getState st ID = [CHR 0x00]"
      with args show ?thesis
        by (simp add: moveBagToLocation_def buffer_is_falsy_def JSON_parse_sentinel)
    next
      assume "bag_value (getState st ID)"
      then obtain ms d where "JSON_parse (getState st ID) = Inr (JObj ms)"
        and "obj_get ''destination'' ms = Some (JStr d)"
        by (rule bag_valueE)
      then show ?thesis
        using args moveBagToLocation_object [of st ID ms d location extra] by simp
    qed
  qed
qed

text \<open>
  C10: the record \<open>createBloodBag\<close> stores has the property \<open>docType\<close> with the
  value \<open>bloodbag\<close> (\<open>createBloodBag_fresh\<close>), the two mutators keep it, and so
  in every reachable ledger every stored value that decodes to a record has
  \<open>docType\<close> equal to \<open>bloodbag\<close>.
\<close>

theorem docType_bloodbag:
  assumes "reachable st" and "JSON_parse (getState st key) = Inr (JObj ms)"
  shows "obj_get ''docType'' ms = Some (JStr ''bloodbag'')"
proof -
  show ?thesis
  proof (rule stored_value_cases [OF reachable_stored_values_ok [OF assms(1)], of key])
    assume "getState st key = []"
    with assms(2) show ?thesis by (simp add: JSON_parse_empty)
  next
    assume "getState st key = [CHR 0x00]"
    with assms(2) show ?thesis by (simp add: JSON_parse_sentinel)
  next
    assume "bag_value (getState st key)"
    with assms(2) show ?thesis by (auto elim: bag_valueE)
  qed
qed

lemma created_bag_sample:
  "created_bag ''B1'' ''O1'' l ''O'' ''+'' ''450'' = sample_bag l ''UNASIGNED'' ''UNASIGNED'' ''UNASIGNED''"
  by (simp add: created_bag_def sample_bag_def)

lemma create_B1:
  "createBloodBag [''B1'', ''O1'', ''Lab'', ''O'', ''+'', ''450''] Map.empty =
     (Inr (), [''B1'' \<mapsto> JSON_stringify (JObj (sample_bag ''Lab'' ''UNASIGNED'' ''UNASIGNED'' ''UNASIGNED'')),
               type_id_key ''O'' ''B1'' \<mapsto> [CHR 0x00]])"
  using createBloodBag_fresh [of "''B1''" "''O1''" "''Lab''" "''O''" "''+''" "''450''" Map.empty]
  by (simp add: getState_def putState_def created_bag_sample)

lemma create_move_B1:
  "moveBagToLocation [''B1'', ''Hospital'']
     (snd (createBloodBag [''B1'', ''O1'', ''Lab'', ''O'', ''+'', ''450''] Map.empty)) =
     (Inr (), [''B1'' \<mapsto> JSON_stringify (JObj (sample_bag ''Hospital'' ''INTRANSIT'' ''UNASIGNED'' ''UNASIGNED'')),
               type_id_key ''O'' ''B1'' \<mapsto> [CHR 0x00]])"
proof -
  let ?st = "[''B1'' \<mapsto> JSON_stringify (JObj (sample_bag ''Lab'' ''UNASIGNED'' ''UNASIGNED'' ''UNASIGNED'')),
              type_id_key ''O'' ''B1'' \<mapsto> [CHR 0x00]]"
  have p: "JSON_parse (getState ?st ''B1'') = Inr (JObj (sample_bag ''Lab'' ''UNASIGNED'' ''UNASIGNED'' ''UNASIGNED''))"
    using type_id_key_neq [of "''O''" "''B1''"]
    by (simp add: getState_def JSON_parse_stringify wf_sample_bag)
  have "moveBagToLocation [''B1'', ''Hospital''] ?st =
          (Inr (), putState ?st ''B1'' (JSON_stringify (JObj
             (sample_bag ''Hospital'' ''INTRANSIT'' ''UNASIGNED'' ''UNASIGNED''))))"
    using moveBagToLocation_object [OF p, of "''UNASIGNED''" "''Hospital''" "[]"]
    by (simp add: sample_bag_def obj_get_def)
  moreover have "putState ?st ''B1'' v = [''B1'' \<mapsto> v, type_id_key ''O'' ''B1'' \<mapsto> [CHR 0x00]]" for v
    using type_id_key_neq [of "''O''" "''B1''"] by (auto simp: putState_def)
  ultimately show ?thesis by (simp add: create_B1)
qed

theorem docType_bloodbag_witness:
  "reachable (snd (moveBagToLocation [''B1'', ''Hospital'']
       (snd (createBloodBag [''B1'', ''O1'', ''Lab'', ''O'', ''+'', ''450''] Map.empty))))
   \<and> JSON_parse (getState (snd (moveBagToLocation [''B1'', ''Hospital'']
       (snd (createBloodBag [''B1'', ''O1'', ''Lab'', ''O'', ''+'', ''450''] Map.empty)))) ''B1'')
       = Inr (JObj (sample_bag ''Hospital'' ''INTRANSIT'' ''UNASIGNED'' ''UNASIGNED''))
   \<and> obj_get ''docType'' (sample_bag ''Hospital'' ''INTRANSIT'' ''UNASIGNED'' ''UNASIGNED'')
       = Some (JStr ''bloodbag'')"
proof -
  let ?st = "snd (moveBagToLocation [''B1'', ''Hospital'']
       (snd (createBloodBag [''B1'', ''O1'', ''Lab'', ''O'', ''+'', ''450''] Map.empty)))"
  have r: "reachable ?st"
    by (intro reachable.move reachable.create reachable.empty)
  have p: "JSON_parse (getState ?st ''B1'')
             = Inr (JObj (sample_bag ''Hospital'' ''INTRANSIT'' ''UNASIGNED'' ''UNASIGNED''))"
    using type_id_key_neq [of "''O''" "''B1''"]
    by (auto simp: create_move_B1 getState_def JSON_parse_stringify wf_sample_bag)
  from docType_bloodbag [OF r p] r p show ?thesis by simp
qed

subsection \<open>The index follows the records\<close>

lemma type_id_key_has_separator: "CHR 0x00 \<in> set (type_id_key t i)"
  by (simp add: type_id_key_def)

lemma type_id_key_not_free: "separator_free k \<Longrightarrow> type_id_key t i \<noteq> k"
  using type_id_key_has_separator [of t i] by (auto simp: separator_free_def)

lemma type_id_key_inject:
  assumes "CHR 0x00 \<notin> set t" and "CHR 0x00 \<notin> set i"
  shows "type_id_key t i = type_id_key t' i' \<longleftrightarrow> t = t' \<and> i = i'"
  using append_Cons_eq_iff [OF assms, of t' i'] by (simp add: type_id_key_def)

lemma bag_fields_empty: "bag_fields [] = None"
  by (simp add: bag_fields_def JSON_parse_empty)

lemma bag_fields_sentinel: "bag_fields [CHR 0x00] = None"
  by (simp add: bag_fields_def JSON_parse_sentinel)

lemma bag_fields_Some:
  "bag_fields v = Some (i, t) \<Longrightarrow>
   \<exists>ms d. JSON_parse v = Inr (JObj ms) \<and> obj_get ''id'' ms = Some (JStr i) \<and>
          obj_get ''type'' ms = Some (JStr t) \<and> obj_get ''destination'' ms = Some (JStr d)"
  by (auto simp: bag_fields_def split: sum.splits json.splits option.splits)

lemma bag_fieldsI:
  "JSON_parse v = Inr (JObj ms) \<Longrightarrow> obj_get ''id'' ms = Some (JStr i) \<Longrightarrow>
   obj_get ''type'' ms = Some (JStr t) \<Longrightarrow> obj_get ''destination'' ms = Some (JStr d) \<Longrightarrow>
   bag_fields v = Some (i, t)"
  by (simp add: bag_fields_def)

lemma bag_fields_created:
  "bag_fields (JSON_stringify (JObj (created_bag i oi l t rh sz))) = Some (i, t)"
  by (rule bag_fieldsI [OF JSON_parse_created_bag]) (simp_all add: obj_get_created_bag)

lemma separator_free_not_key: "separator_free (type_id_key t i) \<longleftrightarrow> False"
  using type_id_key_has_separator [of t i] by (simp add: separator_free_def)

lemma key_eq_iff:
  "separator_free t \<Longrightarrow> separator_free i \<Longrightarrow>
   type_id_key t i = type_id_key t' i' \<longleftrightarrow> t = t' \<and> i = i'"
  by (rule type_id_key_inject) (simp_all add: separator_free_def)

lemma lockstep_value:
  assumes "lockstep st" and "st k = Some v"
  shows "v = [CHR 0x00] \<or> (\<exists>t. bag_fields v = Some (k, t))"
proof -
  have "index_entry st k v \<or> record_entry st k v"
    using assms by (simp add: lockstep_def)
  then show ?thesis
    by (auto simp: index_entry_def record_entry_def)
qed

lemma lockstep_value_nonempty:
  assumes "lockstep st" and "st k = Some v"
  shows "v \<noteq> []"
  using lockstep_value [OF assms] by (auto simp: bag_fields_empty)

lemma lockstep_record:
  assumes "lockstep st" and "st k = Some v" and "bag_fields v = Some (i, t)"
  shows "i = k \<and> separator_free k \<and> separator_free t \<and> st (type_id_key t k) = Some [CHR 0x00]"
proof -
  have "index_entry st k v \<or> record_entry st k v"
    using assms(1,2) by (simp add: lockstep_def)
  then show ?thesis
    using assms(3) by (auto simp: index_entry_def record_entry_def bag_fields_sentinel)
qed

lemma lockstepI:
  assumes "\<And>k v. st k = Some v \<Longrightarrow> index_entry st k v \<or> record_entry st k v"
  shows "lockstep st"
  using assms by (simp add: lockstep_def)

lemma lockstepD:
  "lockstep st \<Longrightarrow> st k = Some v \<Longrightarrow> index_entry st k v \<or> record_entry st k v"
  by (simp add: lockstep_def)

text \<open>Rewriting a record with another record of the same id and type.\<close>

lemma lockstep_rewrite:
  assumes inv: "lockstep st"
      and old: "st ID = Some v" "bag_fields v = Some (ID, t)"
      and new: "bag_fields v' = Some (ID, t)"
  shows "lockstep (putState st ID v')"
proof (rule lockstepI)
  fix k w
  assume k: "putState st ID v' k = Some w"
  from lockstep_record [OF inv old] have ID: "separator_free ID" and t: "separator_free t"
    and idx: "st (type_id_key t ID) = Some [CHR 0x00]" by auto
  have keys: "type_id_key a b \<noteq> ID" for a b
    using ID by (rule type_id_key_not_free)
  show "index_entry (putState st ID v') k w \<or> record_entry (putState st ID v') k w"
  proof (cases "k = ID")
    case True
    with k have "w = v'" by (simp add: putState_def)
    with True ID t new idx keys have "record_entry (putState st ID v') k w"
      by (auto simp: record_entry_def putState_def)
    then show ?thesis ..
  next
    case False
    with k have sk: "st k = Some w" by (simp add: putState_def)
    from lockstepD [OF inv sk] show ?thesis
    proof
      assume "index_entry st k w"
      then obtain t' i' where w: "w = [CHR 0x00]" and kk: "k = type_id_key t' i'"
        and c: "separator_free t'" "separator_free i'"
        and b: "bag_fields (getState st i') = Some (i', t')"
        by (auto simp: index_entry_def)
      have "bag_fields (getState (putState st ID v') i') = Some (i', t')"
      proof (cases "i' = ID")
        case True
        with b old have "t' = t" by (simp add: getState_def)
        with True new show ?thesis by (simp add: getState_putState)
      next
        case False
        with b show ?thesis by (simp add: getState_putState)
      qed
      with w kk c have "index_entry (putState st ID v') k w"
        unfolding index_entry_def by blast
      then show ?thesis ..
    next
      assume "record_entry st k w"
      with False keys have "record_entry (putState st ID v') k w"
        by (auto simp: record_entry_def putState_def)
      then show ?thesis ..
    qed
  qed
qed

text \<open>Adding a record and its index entry.\<close>

lemma lockstep_add:
  assumes inv: "lockstep st"
      and fresh: "st i = None"
      and c: "separator_free i" "separator_free t"
      and new: "bag_fields v = Some (i, t)"
  shows "lockstep (putState (putState st i v) (type_id_key t i) [CHR 0x00])"
proof (rule lockstepI)
  let ?st = "putState (putState st i v) (type_id_key t i) [CHR 0x00]"
  fix k w
  assume k: "?st k = Some w"
  have keys: "type_id_key a b \<noteq> i" for a b
    using c(1) by (rule type_id_key_not_free)
  have geti: "getState ?st i = v"
    using keys [symmetric] by (simp add: getState_putState)
  show "index_entry ?st k w \<or> record_entry ?st k w"
  proof (cases "k = type_id_key t i")
    case True
    with k have "w = [CHR 0x00]" by (simp add: putState_def)
    moreover from new geti have "bag_fields (getState ?st i) = Some (i, t)" by simp
    ultimately have "index_entry ?st k w"
      unfolding index_entry_def using True c by blast
    then show ?thesis ..
  next
    case nk: False
    show ?thesis
    proof (cases "k = i")
      case True
      with k nk have "w = v" by (simp add: putState_def)
      with True c new have "record_entry ?st k w"
        by (auto simp: record_entry_def putState_def)
      then show ?thesis ..
    next
      case False
      with k nk have sk: "st k = Some w" by (simp add: putState_def)
      from lockstepD [OF inv sk] show ?thesis
      proof
        assume "index_entry st k w"
        then obtain t' i' where w: "w = [CHR 0x00]" and kk: "k = type_id_key t' i'"
          and c': "separator_free t'" "separator_free i'"
          and b: "bag_fields (getState st i') = Some (i', t')"
          by (auto simp: index_entry_def)
        from b fresh have "i' \<noteq> i" by (auto simp: getState_def bag_fields_empty)
        moreover have "i' \<noteq> type_id_key t i"
          using c'(2) type_id_key_not_free by blast
        ultimately have "getState ?st i' = getState st i'"
          by (simp add: getState_putState)
        with b have "bag_fields (getState ?st i') = Some (i', t')" by simp
        with w kk c' have "index_entry ?st k w"
          unfolding index_entry_def by blast
        then show ?thesis ..
      next
        assume "record_entry st k w"
        with keys have "record_entry ?st k w"
          by (auto simp: record_entry_def putState_def)
        then show ?thesis ..
      qed
    qed
  qed
qed

text \<open>Removing a record and its index entry.\<close>

lemma lockstep_remove:
  assumes inv: "lockstep st"
      and old: "st ID = Some v" "bag_fields v = Some (ID, t)"
  shows "lockstep (deleteState (deleteState st ID) (type_id_key t ID))"
proof (rule lockstepI)
  let ?st = "deleteState (deleteState st ID) (type_id_key t ID)"
  fix k w
  assume k: "?st k = Some w"
  from lockstep_record [OF inv old] have ID: "separator_free ID" and t: "separator_free t"
    by auto
  have keys: "type_id_key a b \<noteq> ID" for a b
    using ID by (rule type_id_key_not_free)
  from k have nk: "k \<noteq> ID" "k \<noteq> type_id_key t ID" and sk: "st k = Some w"
    by (auto simp: deleteState_def split: if_splits)
  from lockstepD [OF inv sk] show "index_entry ?st k w \<or> record_entry ?st k w"
  proof
    assume "index_entry st k w"
    then obtain t' i' where w: "w = [CHR 0x00]" and kk: "k = type_id_key t' i'"
      and c': "separator_free t'" "separator_free i'"
      and b: "bag_fields (getState st i') = Some (i', t')"
      by (auto simp: index_entry_def)
    have "i' \<noteq> ID"
    proof
      assume "i' = ID"
      with b old have "t' = t" by (simp add: getState_def)
      with \<open>i' = ID\<close> kk nk(2) show False by simp
    qed
    moreover have "i' \<noteq> type_id_key t ID"
      using c'(2) type_id_key_not_free by blast
    ultimately have "getState ?st i' = getState st i'"
      by (simp add: getState_def deleteState_def)
    with b have "bag_fields (getState ?st i') = Some (i', t')" by simp
    with w kk c' have "index_entry ?st k w"
      unfolding index_entry_def by blast
    then show ?thesis ..
  next
    assume r: "record_entry st k w"
    then obtain t' where c': "separator_free k" "separator_free t'"
      and b: "bag_fields w = Some (k, t')" and i: "st (type_id_key t' k) = Some [CHR 0x00]"
      by (auto simp: record_entry_def)
    have "type_id_key t' k \<noteq> type_id_key t ID"
      using c' nk(1) by (simp add: key_eq_iff)
    with keys i have "?st (type_id_key t' k) = Some [CHR 0x00]"
      by (simp add: deleteState_def)
    with c' b have "record_entry ?st k w"
      by (auto simp: record_entry_def)
    then show ?thesis ..
  qed
qed

lemma type_id_key_nonempty: "type_id_key t i \<noteq> []"
  by (simp add: type_id_key_def)

lemma deleteBloodBag_record:
  assumes "JSON_parse (getState st ID) = Inr (JObj ms)"
      and "obj_get ''type'' ms = Some (JStr t)" and "obj_get ''id'' ms = Some (JStr i)"
      and "ID \<noteq> []" and "t \<noteq> []" and "i \<noteq> []"
  shows "deleteBloodBag [ID] st =
           (Inr (), deleteState (deleteState st ID) (type_id_key t i))"
  using assms
  by (simp add: deleteBloodBag_def buffer_is_falsy_def createCompositeKey_type_id
        type_id_key_nonempty)

lemma one_arg: "length args = 1 \<Longrightarrow> \<exists>a. args = [a]"
  by (cases args) auto

lemma lockstep_create:
  assumes "lockstep st" and "no_separator args"
  shows "lockstep (snd (createBloodBag args st))"
proof -
  from createBloodBag_state [of args st] show ?thesis
  proof
    assume "snd (createBloodBag args st) = st"
    with assms(1) show ?thesis by simp
  next
    assume "\<exists>i oi l t rh sz. args = [i, oi, l, t, rh, sz] \<and> i \<noteq> [] \<and> t \<noteq> [] \<and>
              getState st i = [] \<and>
              snd (createBloodBag args st) =
                putState (putState st i (JSON_stringify (JObj (created_bag i oi l t rh sz))))
                  (type_id_key t i) [CHR 0x00]"
    then obtain i oi l t rh sz where args: "args = [i, oi, l, t, rh, sz]"
      and ne: "i \<noteq> []" "t \<noteq> []" and absent: "getState st i = []"
      and st': "snd (createBloodBag args st) =
                putState (putState st i (JSON_stringify (JObj (created_bag i oi l t rh sz))))
                  (type_id_key t i) [CHR 0x00]"
      by blast
    from assms(2) args ne have c: "separator_free i" "separator_free t"
      by (simp_all add: no_separator_def separator_free_def)
    have "st i = None"
    proof (cases "st i")
      case (Some v)
      with absent have "v = []" by (simp add: getState_def)
      with lockstep_value_nonempty [OF assms(1) Some] show ?thesis by simp
    qed simp
    then show ?thesis
      unfolding st' using c bag_fields_created by (intro lockstep_add [OF assms(1)])
  qed
qed

lemma lockstep_stored:
  assumes "lockstep st"
  obtains (absent) "getState st k = []" | (sentinel) "getState st k = [CHR 0x00]"
    | (bag) v t where "st k = Some v" and "bag_fields v = Some (k, t)"
proof (cases "st k")
  case None
  then have "getState st k = []" by (simp add: getState_def)
  then show ?thesis by (rule absent)
next
  case (Some v)
  from lockstep_value [OF assms Some] show ?thesis
  proof
    assume "v = [CHR 0x00]"
    with Some have "getState st k = [CHR 0x00]" by (simp add: getState_def)
    then show ?thesis by (rule sentinel)
  next
    assume "\<exists>t. bag_fields v = Some (k, t)"
    then obtain t where "bag_fields v = Some (k, t)" ..
    with Some show ?thesis by (rule bag)
  qed
qed

lemma lockstep_delete:
  assumes "lockstep st"
  shows "lockstep (snd (deleteBloodBag args st))"
proof (cases "length args = 1")
  case False
  with assms show ?thesis by (simp add: deleteBloodBag_def)
next
  case True
  then obtain ID where args: "args = [ID]" using one_arg by blast
  show ?thesis
  proof (cases "ID = []")
    case True
    with assms args show ?thesis by (simp add: deleteBloodBag_def)
  next
    case False
    show ?thesis
    proof (rule lockstep_stored [OF assms, of ID])
      assume "getState st ID = []"
      with assms args False show ?thesis
        by (simp add: deleteBloodBag_def buffer_is_falsy_def JSON_parse_empty)
    next
      assume "getState st ID = [CHR 0x00]"
      with assms args False show ?thesis
        by (simp add: deleteBloodBag_def buffer_is_falsy_def JSON_parse_sentinel)
    next
      fix v t
      assume v: "st ID = Some v" and b: "bag_fields v = Some (ID, t)"
      from lockstep_record [OF assms v b] have t: "separator_free t" by simp
      from bag_fields_Some [OF b] obtain ms where "JSON_parse v = Inr (JObj ms)"
        and "obj_get ''id'' ms = Some (JStr ID)" and "obj_get ''type'' ms = Some (JStr t)"
        by blast
      with v False t have "deleteBloodBag [ID] st =
          (Inr (), deleteState (deleteState st ID) (type_id_key t ID))"
        by (intro deleteBloodBag_record) (simp_all add: getState_def separator_free_def)
      with args lockstep_remove [OF assms v b] show ?thesis by simp
    qed
  qed
qed

lemma bag_fields_moved:
  assumes "bag_fields v = Some (i, t)" and "JSON_parse v = Inr (JObj ms)"
  shows "bag_fields (JSON_stringify (JObj
           (obj_set ''status'' (JStr s) (obj_set ''location'' (JStr l) ms)))) = Some (i, t)"
proof -
  let ?ms' = "obj_set ''status'' (JStr s) (obj_set ''location'' (JStr l) ms)"
  from bag_fields_Some [OF assms(1)] assms(2) obtain d where
    f: "obj_get ''id'' ms = Some (JStr i)" "obj_get ''type'' ms = Some (JStr t)"
       "obj_get ''destination'' ms = Some (JStr d)"
    by auto
  have "wf_members ms" using wf_JSON_parse [OF assms(2)] by simp
  then have "JSON_parse (JSON_stringify (JObj ?ms')) = Inr (JObj ?ms')"
    by (intro JSON_parse_stringify) (simp add: wf_moved)
  then show ?thesis
    by (rule bag_fieldsI) (simp_all add: obj_get_obj_set f)
qed

lemma bag_fields_assigned:
  assumes "bag_fields v = Some (i, t)" and "JSON_parse v = Inr (JObj ms)"
  shows "bag_fields (JSON_stringify (JObj
           (obj_set ''status'' (JStr s) (obj_set ''destination'' (JStr d)
              (obj_set ''recipient'' (JStr r) ms))))) = Some (i, t)"
proof -
  let ?ms' = "obj_set ''status'' (JStr s) (obj_set ''destination'' (JStr d)
                (obj_set ''recipient'' (JStr r) ms))"
  from bag_fields_Some [OF assms(1)] assms(2) have
    f: "obj_get ''id'' ms = Some (JStr i)" "obj_get ''type'' ms = Some (JStr t)"
    by auto
  have "wf_members ms" using wf_JSON_parse [OF assms(2)] by simp
  then have "JSON_parse (JSON_stringify (JObj ?ms')) = Inr (JObj ?ms')"
    by (intro JSON_parse_stringify) (simp add: wf_assigned)
  then show ?thesis
    by (rule bag_fieldsI) (simp_all add: obj_get_obj_set f)
qed

lemma lockstep_move:
  assumes "lockstep st"
  shows "lockstep (snd (moveBagToLocation args st))"
proof (cases "length args < 2")
  case True
  with assms show ?thesis by (simp add: moveBagToLocation_def)
next
  case False
  then obtain ID location extra where args: "args = ID # location # extra"
    using two_args by blast
  show ?thesis
  proof (rule lockstep_stored [OF assms, of ID])
    assume "getState st ID = []"
    with assms args show ?thesis by (simp add: moveBagToLocation_def)
  next
    assume "getState st ID = [CHR 0x00]"
    with assms args show ?thesis
      by (simp add: moveBagToLocation_def buffer_is_falsy_def JSON_parse_sentinel)
  next
    fix v t
    assume v: "st ID = Some v" and b: "bag_fields v = Some (ID, t)"
    from bag_fields_Some [OF b] obtain ms d where p: "JSON_parse v = Inr (JObj ms)"
      and dest: "obj_get ''destination'' ms = Some (JStr d)"
      by blast
    from v p have p': "JSON_parse (getState st ID) = Inr (JObj ms)"
      by (simp add: getState_def)
    show ?thesis
      using args moveBagToLocation_object [OF p' dest, of location extra]
        lockstep_rewrite [OF assms v b bag_fields_moved [OF b p]]
      by simp
  qed
qed

lemma lockstep_assign:
  assumes "lockstep st"
  shows "lockstep (snd (assignBloodBagReceiver args st))"
proof (cases "length args < 3")
  case True
  with assms show ?thesis by (simp add: assignBloodBagReceiver_def)
next
  case False
  then obtain ID recipient destination extra
    where args: "args = ID # recipient # destination # extra"
    using three_args by blast
  show ?thesis
  proof (rule lockstep_stored [OF assms, of ID])
    assume "getState st ID = []"
    with assms args show ?thesis by (simp add: assignBloodBagReceiver_def)
  next
    assume "getState st ID = [CHR 0x00]"
    with assms args show ?thesis
      by (simp add: assignBloodBagReceiver_def buffer_is_falsy_def JSON_parse_sentinel)
  next
    fix v t
    assume v: "st ID = Some v" and b: "bag_fields v = Some (ID, t)"
    from bag_fields_Some [OF b] obtain ms where p: "JSON_parse v = Inr (JObj ms)"
      by blast
    from v p have p': "JSON_parse (getState st ID) = Inr (JObj ms)"
      by (simp add: getState_def)
    show ?thesis
      using args assignBloodBagReceiver_object [OF p', of recipient destination extra]
        lockstep_rewrite [OF assms v b bag_fields_assigned [OF b p]]
      by simp
  qed
qed

lemma lockstep_empty: "lockstep Map.empty"
  by (simp add: lockstep_def)

lemma reachable_separated_lockstep: "reachable_separated st \<Longrightarrow> lockstep st"
  by (induction rule: reachable_separated.induct)
     (simp_all add: lockstep_empty lockstep_create lockstep_delete lockstep_move lockstep_assign)

text \<open>
  C2, as the code has it: in every ledger reachable by calls of \<open>createBloodBag\<close>
  whose id and type contain no U+0000 (and by any calls of \<open>deleteBloodBag\<close>,
  \<open>moveBagToLocation\<close> and \<open>assignBloodBagReceiver\<close>), the index entry under the
  composite key of a type and an id exists if and only if a record is stored under
  the id and its type is that type.
\<close>

theorem index_entry_iff_record:
  assumes "reachable_separated st"
  shows "getState st (type_id_key t i) \<noteq> [] \<longleftrightarrow>
         (\<exists>ms. JSON_parse (getState st i) = Inr (JObj ms) \<and> obj_get ''type'' ms = Some (JStr t))"
proof
  have inv: "lockstep st" using assms by (rule reachable_separated_lockstep)
  {
    assume "getState st (type_id_key t i) \<noteq> []"
    then obtain v where v: "st (type_id_key t i) = Some v"
      by (cases "st (type_id_key t i)") (auto simp: getState_def)
    from lockstepD [OF inv v] have "index_entry st (type_id_key t i) v"
      by (auto simp: record_entry_def separator_free_not_key)
    then obtain t' i' where "type_id_key t i = type_id_key t' i'"
      and "separator_free t'" "separator_free i'"
      and b: "bag_fields (getState st i') = Some (i', t')"
      by (auto simp: index_entry_def)
    then have "t' = t" "i' = i" using key_eq_iff [of t' i' t i] by auto
    with bag_fields_Some [OF b]
    show "\<exists>ms. JSON_parse (getState st i) = Inr (JObj ms) \<and> obj_get ''type'' ms = Some (JStr t)"
      by auto
  }
  {
    assume "\<exists>ms. JSON_parse (getState st i) = Inr (JObj ms) \<and> obj_get ''type'' ms = Some (JStr t)"
    then obtain ms where p: "JSON_parse (getState st i) = Inr (JObj ms)"
      and ty: "obj_get ''type'' ms = Some (JStr t)" by blast
    show "getState st (type_id_key t i) \<noteq> []"
    proof (rule lockstep_stored [OF inv, of i])
      assume "getState st i = []"
      with p show ?thesis by (simp add: JSON_parse_empty)
    next
      assume "getState st i = [CHR 0x00]"
      with p show ?thesis by (simp add: JSON_parse_sentinel)
    next
      fix v t'
      assume v: "st i = Some v" and b: "bag_fields v = Some (i, t')"
      from bag_fields_Some [OF b] v p ty have "t' = t" by (auto simp: getState_def)
      with lockstep_record [OF inv v b] show ?thesis by (simp add: getState_def)
    qed
  }
qed

lemma delete_B1:
  "deleteBloodBag [''B1'']
     (snd (createBloodBag [''B1'', ''O1'', ''Lab'', ''O'', ''+'', ''450''] Map.empty))
     = (Inr (), Map.empty)"
proof -
  let ?st = "[''B1'' \<mapsto> JSON_stringify (JObj (sample_bag ''Lab'' ''UNASIGNED'' ''UNASIGNED'' ''UNASIGNED'')),
              type_id_key ''O'' ''B1'' \<mapsto> [CHR 0x00]]"
  have p: "JSON_parse (getState ?st ''B1'') = Inr (JObj (sample_bag ''Lab'' ''UNASIGNED'' ''UNASIGNED'' ''UNASIGNED''))"
    using type_id_key_neq [of "''O''" "''B1''"]
    by (simp add: getState_def JSON_parse_stringify wf_sample_bag)
  have "deleteBloodBag [''B1''] ?st =
          (Inr (), deleteState (deleteState ?st ''B1'') (type_id_key ''O'' ''B1''))"
    by (rule deleteBloodBag_record [OF p]) (simp_all add: sample_bag_def obj_get_def)
  moreover have "deleteState (deleteState ?st ''B1'') (type_id_key ''O'' ''B1'') = Map.empty"
    by (auto simp: deleteState_def)
  ultimately show ?thesis by (simp add: create_B1)
qed

theorem index_entry_iff_record_witness:
  "reachable_separated (snd (createBloodBag [''B1'', ''O1'', ''Lab'', ''O'', ''+'', ''450''] Map.empty))
   \<and> getState (snd (createBloodBag [''B1'', ''O1'', ''Lab'', ''O'', ''+'', ''450''] Map.empty))
        (type_id_key ''O'' ''B1'') = [CHR 0x00]
   \<and> JSON_parse (getState
        (snd (createBloodBag [''B1'', ''O1'', ''Lab'', ''O'', ''+'', ''450''] Map.empty)) ''B1'')
       = Inr (JObj (sample_bag ''Lab'' ''UNASIGNED'' ''UNASIGNED'' ''UNASIGNED''))
   \<and> reachable_separated (snd (deleteBloodBag [''B1'']
        (snd (createBloodBag [''B1'', ''O1'', ''Lab'', ''O'', ''+'', ''450''] Map.empty))))
   \<and> getState (snd (deleteBloodBag [''B1'']
        (snd (createBloodBag [''B1'', ''O1'', ''Lab'', ''O'', ''+'', ''450''] Map.empty))))
        (type_id_key ''O'' ''B1'') = []
   \<and> getState (snd (deleteBloodBag [''B1'']
        (snd (createBloodBag [''B1'', ''O1'', ''Lab'', ''O'', ''+'', ''450''] Map.empty)))) ''B1'' = []"
proof -
  let ?c = "snd (createBloodBag [''B1'', ''O1'', ''Lab'', ''O'', ''+'', ''450''] Map.empty)"
  let ?d = "snd (deleteBloodBag [''B1''] ?c)"
  have rc: "reachable_separated ?c"
    by (intro reachable_separated.create reachable_separated.empty) (simp add: no_separator_def)
  then have rd: "reachable_separated ?d"
    by (rule reachable_separated.delete)
  have p: "JSON_parse (getState ?c ''B1'')
             = Inr (JObj (sample_bag ''Lab'' ''UNASIGNED'' ''UNASIGNED'' ''UNASIGNED''))"
    using type_id_key_neq [of "''O''" "''B1''"]
    by (auto simp: create_B1 getState_def JSON_parse_stringify wf_sample_bag)
  have ty: "obj_get ''type'' (sample_bag ''Lab'' ''UNASIGNED'' ''UNASIGNED'' ''UNASIGNED'') = Some (JStr ''O'')"
    by (simp add: sample_bag_def obj_get_def)
  have "getState ?c (type_id_key ''O'' ''B1'') \<noteq> []"
    using index_entry_iff_record [OF rc, of "''O''" "''B1''"] p ty by blast
  moreover have "getState ?c (type_id_key ''O'' ''B1'') = [CHR 0x00]"
    by (simp add: create_B1 getState_def)
  moreover have "getState ?d (type_id_key ''O'' ''B1'') = []" "getState ?d ''B1'' = []"
    by (simp_all add: delete_B1 getState_def)
  ultimately show ?thesis using rc rd p by simp
qed

lemma collide_key:
  "type_id_key [CHR ''A'', CHR 0x00, CHR ''B''] ''C'' = type_id_key ''A'' [CHR ''B'', CHR 0x00, CHR ''C'']"
  by (simp add: type_id_key_def)

text \<open>
  C2 as stated fails: U+0000 is accepted in ids and types, and then two bags can share
  one index key. Bag \<open>C\<close> of type \<open>A\<close> U+0000 \<open>B\<close> and bag \<open>B\<close> U+0000 \<open>C\<close>
  of type \<open>A\<close> do; after both are created and the first is deleted, the record of
  the second is stored and its index entry is gone.
\<close>

theorem index_entry_lost:
  "reachable
     (snd (deleteBloodBag [''C'']
       (snd (createBloodBag [[CHR ''B'', CHR 0x00, CHR ''C''], ''O1'', ''Lab'', ''A'', ''+'', ''450'']
         (snd (createBloodBag [''C'', ''O1'', ''Lab'', [CHR ''A'', CHR 0x00, CHR ''B''], ''+'', ''450'']
            Map.empty))))))
   \<and> JSON_parse (getState
       (snd (deleteBloodBag [''C'']
         (snd (createBloodBag [[CHR ''B'', CHR 0x00, CHR ''C''], ''O1'', ''Lab'', ''A'', ''+'', ''450'']
           (snd (createBloodBag [''C'', ''O1'', ''Lab'', [CHR ''A'', CHR 0x00, CHR ''B''], ''+'', ''450'']
              Map.empty)))))) [CHR ''B'', CHR 0x00, CHR ''C''])
       = Inr (JObj (created_bag [CHR ''B'', CHR 0x00, CHR ''C''] ''O1'' ''Lab'' ''A'' ''+'' ''450''))
   \<and> getState
       (snd (deleteBloodBag [''C'']
         (snd (createBloodBag [[CHR ''B'', CHR 0x00, CHR ''C''], ''O1'', ''Lab'', ''A'', ''+'', ''450'']
           (snd (createBloodBag [''C'', ''O1'', ''Lab'', [CHR ''A'', CHR 0x00, CHR ''B''], ''+'', ''450'']
              Map.empty))))))
       (type_id_key ''A'' [CHR ''B'', CHR 0x00, CHR ''C'']) = []"
proof -
  let ?t1 = "[CHR ''A'', CHR 0x00, CHR ''B'']" and ?i2 = "[CHR ''B'', CHR 0x00, CHR ''C'']"
  let ?r1 = "JSON_stringify (JObj (created_bag ''C'' ''O1'' ''Lab'' ?t1 ''+'' ''450''))"
  let ?r2 = "JSON_stringify (JObj (created_bag ?i2 ''O1'' ''Lab'' ''A'' ''+'' ''450''))"
  let ?k = "type_id_key ''A'' ?i2"
  let ?s1 = "snd (createBloodBag [''C'', ''O1'', ''Lab'', ?t1, ''+'', ''450''] Map.empty)"
  let ?s2 = "snd (createBloodBag [?i2, ''O1'', ''Lab'', ''A'', ''+'', ''450''] ?s1)"
  let ?s3 = "snd (deleteBloodBag [''C''] ?s2)"
  have k: "?k \<noteq> ''C''" "?k \<noteq> ?i2" by (simp_all add: type_id_key_def)
  have s1: "?s1 = [''C'' \<mapsto> ?r1, ?k \<mapsto> [CHR 0x00]]"
    using createBloodBag_fresh [of "''C''" "''O1''" "''Lab''" ?t1 "''+''" "''450''" Map.empty]
    by (simp add: getState_def putState_def collide_key)
  have s2: "?s2 = [''C'' \<mapsto> ?r1, ?k \<mapsto> [CHR 0x00], ?i2 \<mapsto> ?r2]"
    using createBloodBag_fresh [of ?i2 "''O1''" "''Lab''" "''A''" "''+''" "''450''" ?s1] k
    by (auto simp: s1 getState_def putState_def)
  have p: "JSON_parse (getState ?s2 ''C'') = Inr (JObj (created_bag ''C'' ''O1'' ''Lab'' ?t1 ''+'' ''450''))"
    using k by (simp add: s2 getState_def JSON_parse_created_bag)
  have "deleteBloodBag [''C''] ?s2 =
          (Inr (), deleteState (deleteState ?s2 ''C'') (type_id_key ?t1 ''C''))"
    by (rule deleteBloodBag_record [OF p]) (simp_all add: obj_get_created_bag)
  then have s3: "?s3 = [?i2 \<mapsto> ?r2]"
    using k by (auto simp: s2 deleteState_def collide_key)
  have "reachable ?s3"
    by (intro reachable.delete reachable.create reachable.empty)
  moreover have "JSON_parse (getState ?s3 ?i2) = Inr (JObj (created_bag ?i2 ''O1'' ''Lab'' ''A'' ''+'' ''450''))"
    by (simp add: s3 getState_def JSON_parse_created_bag)
  moreover have "getState ?s3 ?k = []"
    using k by (simp add: s3 getState_def)
  ultimately show ?thesis by blast
qed

end
